theory Spec2Isabelle
  imports Complex_Main "HOL-Library.AList"
begin

section \<open>Multi-axis layout, combined legends and mouse tracking of \<open>plotting.py\<close>\<close>

text \<open>
  A shallow embedding of the functions \<open>axes\<close>, \<open>legend\<close>, \<open>register_event\<close>,
  \<open>unregister_event\<close> and \<open>add_mouse_tracking_vertical_line\<close> of \<open>src/plotting.py\<close>.
  Python objects (Axes, canvases, Line2D artists) are identities (natural numbers); the
  attributes the functions write are fields of records held in explicit stores, and every
  function takes the store and returns the store it leaves behind. A raised exception is a
  value of \<open>error\<close>, returned together with the store as it was when the exception
  left the function.

  Python computes the spine offsets in floating point. The embedding does not fix what
  \<open>n * x\<close> and \<open>n + x\<close> return for an integer \<open>n\<close> and a float \<open>x\<close>: the type
  of floats is a type variable and the two operations are a parameter (\<open>arith\<close>) of the
  functions that compute with floats. The pointer coordinate of a mouse event is only
  passed on by the code, never computed with.
\<close>

subsection \<open>Errors\<close>

text \<open>
  \<open>RemoveError\<close> is what \<open>Line2D.remove()\<close> raises for a line that is no longer on
  its Axes (a ValueError or a NotImplementedError, by the version of matplotlib).
\<close>

datatype error =
  IndexError
  | KeyError
  | ValueError
  | TypeError
  | RemoveError
  | ConverterFault string

subsection \<open>Floating point as a parameter\<close>

text \<open>
  \<open>int_times ar n x\<close> is what Python returns for \<open>n * x\<close> and \<open>int_plus ar n x\<close>
  for \<open>n + x\<close>, for an integer \<open>n\<close> and a float \<open>x\<close>.
\<close>

record 'f arith =
  int_times :: "int \<Rightarrow> 'f \<Rightarrow> 'f"
  int_plus :: "int \<Rightarrow> 'f \<Rightarrow> 'f"

subsection \<open>Axes objects and the figure that owns them\<close>

type_synonym Axes_id = nat
type_synonym handle = nat
type_synonym kwargs = "(string \<times> string) list"

datatype side = Left | Right | Top | Bottom

record 'f Spine =
  position :: "(string \<times> 'f) option"
  visible :: bool

record 'f Legend =
  handles :: "handle list"
  labels :: "string list"
  loc :: string
  fancybox :: "bool option"
  framealpha :: "'f option"
  legend_kwargs :: kwargs

record 'f Axes =
  xlabel :: "string option"
  ylabel :: "string option"
  grid :: "(bool \<times> string) option"
  spines :: "side \<Rightarrow> 'f Spine"
  frame_on :: bool
  patch_visible :: bool
  yaxis_label_position :: side
  yaxis_ticks_position :: side
  useOffset :: "bool option"
  legend_handles_labels :: "handle list \<times> string list"
  attached_legend :: "'f Legend option"

text \<open>
  \<open>legend_handles_labels\<close> is what \<open>get_legend_handles_labels()\<close> returns for the
  Axes, \<open>attached_legend\<close> the legend that \<open>Axes.legend(...)\<close> last gave it.
\<close>

text \<open>
  The layout applied to the figure: \<open>tight_layout()\<close>, or \<open>tight_layout(rect=...)\<close> with
  the four numbers of \<open>rect\<close> as the source writes them.
\<close>

datatype layout = Tight | Tight_rect "string list"

text \<open>
  The figure: a heap of Axes objects (\<open>next_axes\<close> is the first identity not yet
  allocated), the text of the figure title and the layout last applied.
\<close>

record 'f figure =
  axes_heap :: "Axes_id \<Rightarrow> 'f Axes"
  next_axes :: nat
  suptitle :: "string option"
  applied_layout :: "layout option"

definition upd :: "Axes_id \<Rightarrow> ('f Axes \<Rightarrow> 'f Axes) \<Rightarrow> 'f figure \<Rightarrow> 'f figure" where
  "upd ax f fig = fig\<lparr>axes_heap := (axes_heap fig)(ax := f (axes_heap fig ax))\<rparr>"

subsection \<open>\<open>legend\<close>: one combined legend for several Axes\<close>

datatype LegendLocation =
  BEST | UPPER_RIGHT | UPPER_LEFT | LOWER_LEFT | LOWER_RIGHT | RIGHT
  | CENTER_LEFT | CENTER_RIGHT | LOWER_CENTER | UPPER_CENTER | CENTER

fun LegendLocation_value :: "LegendLocation \<Rightarrow> string" where
  "LegendLocation_value BEST = ''best''"
| "LegendLocation_value UPPER_RIGHT = ''upper right''"
| "LegendLocation_value UPPER_LEFT = ''upper left''"
| "LegendLocation_value LOWER_LEFT = ''lower left''"
| "LegendLocation_value LOWER_RIGHT = ''lower right''"
| "LegendLocation_value RIGHT = ''right''"
| "LegendLocation_value CENTER_LEFT = ''center left''"
| "LegendLocation_value CENTER_RIGHT = ''center right''"
| "LegendLocation_value LOWER_CENTER = ''lower center''"
| "LegendLocation_value UPPER_CENTER = ''upper center''"
| "LegendLocation_value CENTER = ''center''"

text \<open>The argument \<open>loc\<close> is a \<open>LegendLocation\<close> or a plain string.\<close>

datatype loc_arg = Loc LegendLocation | Loc_str string

fun loc_value :: "loc_arg \<Rightarrow> string" where
  "loc_value (Loc l) = LegendLocation_value l"
| "loc_value (Loc_str s) = s"

text \<open>
  The loop \<open>for axis in axes_: lines.extend(lines_); labels.extend(labels_)\<close>, one
  step of it first (the sequence \<open>axes_\<close> is \<open>axs\<close> here).
\<close>

definition collect_step ::
  "'f figure \<Rightarrow> Axes_id \<Rightarrow> handle list \<times> string list \<Rightarrow> handle list \<times> string list" where
  "collect_step fig axis acc =
     (let (lines, labels) = acc;
          (lines', labels') = legend_handles_labels (axes_heap fig axis)
      in (lines @ lines', labels @ labels'))"

definition collect :: "'f figure \<Rightarrow> Axes_id list \<Rightarrow> handle list \<times> string list" where
  "collect fig axs = fold (collect_step fig) axs ([], [])"

text \<open>
  The strings that matplotlib takes as the location of a legend of an Axes; they are the
  values of \<open>LegendLocation\<close>.
\<close>

definition valid_loc :: "string \<Rightarrow> bool" where
  "valid_loc s =
     (s \<in> set (map LegendLocation_value
        [BEST, UPPER_RIGHT, UPPER_LEFT, LOWER_LEFT, LOWER_RIGHT, RIGHT,
         CENTER_LEFT, CENTER_RIGHT, LOWER_CENTER, UPPER_CENTER, CENTER]))"

text \<open>
  \<open>Axes.legend(lines, labels, *args, loc=, fancybox=, framealpha=, **kwargs)\<close> is
  matplotlib's. What it makes of the further arguments \<open>*args\<close> and \<open>**kwargs\<close> is the
  parameter \<open>check\<close>: the exception it raises for them, or \<open>None\<close> when it accepts them.
  A location that is no location raises ValueError. Otherwise the legend is attached to
  the Axes.
\<close>

definition Axes_legend ::
  "(string list \<Rightarrow> kwargs \<Rightarrow> error option) \<Rightarrow> handle list \<Rightarrow> string list \<Rightarrow> string list
     \<Rightarrow> string \<Rightarrow> bool option \<Rightarrow> 'f option \<Rightarrow> kwargs \<Rightarrow> 'f Axes \<Rightarrow> error + 'f Axes" where
  "Axes_legend check lines labels' args loc' fancybox' framealpha' kw a =
     (case check args kw of
        Some e \<Rightarrow> Inl e
      | None \<Rightarrow>
          if valid_loc loc'
          then Inr (a\<lparr>attached_legend := Some \<lparr>handles = lines, labels = labels',
                        loc = loc', fancybox = fancybox', framealpha = framealpha',
                        legend_kwargs = kw\<rparr>\<rparr>)
          else Inl ValueError)"

text \<open>
  \<open>legend(axes_, loc, *args, fancybox=, framealpha=, **kwargs)\<close>: \<open>axes_[0]\<close> raises
  IndexError on an empty sequence, after the loop has run and before the arguments of the
  call are looked at.
\<close>

definition legend ::
  "(string list \<Rightarrow> kwargs \<Rightarrow> error option) \<Rightarrow> Axes_id list \<Rightarrow> loc_arg \<Rightarrow> string list
     \<Rightarrow> bool option \<Rightarrow> 'f option \<Rightarrow> kwargs \<Rightarrow> 'f figure \<Rightarrow> (error + unit) \<times> 'f figure" where
  "legend check axs loc' args fancybox' framealpha' kw fig =
     (let (lines, labels') = collect fig axs
      in case axs of
           [] \<Rightarrow> (Inl IndexError, fig)
         | first # _ \<Rightarrow>
             (case Axes_legend check lines labels' args (loc_value loc') fancybox' framealpha'
                     kw (axes_heap fig first) of
                Inl e \<Rightarrow> (Inl e, fig)
              | Inr a \<Rightarrow> (Inr (), fig\<lparr>axes_heap := (axes_heap fig)(first := a)\<rparr>)))"

subsection \<open>\<open>axes\<close>: the stack of left and right y-axes\<close>

text \<open>
  The label arguments \<open>y_label_left\<close> and \<open>y_label_right\<close> are \<open>None\<close>, one
  string or a collection of strings.
\<close>

datatype labels_arg = Label string | Labels "string list"

text \<open>Python's truth value of such an argument: \<open>None\<close>, \<open>""\<close> and \<open>[]\<close> are false.\<close>

fun truthy :: "labels_arg option \<Rightarrow> bool" where
  "truthy None = False"
| "truthy (Some (Label s)) = (s \<noteq> [])"
| "truthy (Some (Labels ls)) = (ls \<noteq> [])"

text \<open>The methods of an Axes object that \<open>axes\<close> calls, as updates of its record.\<close>

definition set_xlabel :: "string \<Rightarrow> 'f Axes \<Rightarrow> 'f Axes" where
  "set_xlabel s a = a\<lparr>xlabel := Some s\<rparr>"

definition set_ylabel :: "string \<Rightarrow> 'f Axes \<Rightarrow> 'f Axes" where
  "set_ylabel s a = a\<lparr>ylabel := Some s\<rparr>"

definition set_grid :: "bool \<Rightarrow> string \<Rightarrow> 'f Axes \<Rightarrow> 'f Axes" where
  "set_grid b which a = a\<lparr>grid := Some (b, which)\<rparr>"

definition set_position :: "side \<Rightarrow> string \<times> 'f \<Rightarrow> 'f Axes \<Rightarrow> 'f Axes" where
  "set_position sd pos a = a\<lparr>spines := (spines a)(sd := (spines a sd)\<lparr>position := Some pos\<rparr>)\<rparr>"

definition set_visible :: "side \<Rightarrow> bool \<Rightarrow> 'f Axes \<Rightarrow> 'f Axes" where
  "set_visible sd v a = a\<lparr>spines := (spines a)(sd := (spines a sd)\<lparr>visible := v\<rparr>)\<rparr>"

definition set_label_position :: "side \<Rightarrow> 'f Axes \<Rightarrow> 'f Axes" where
  "set_label_position sd a = a\<lparr>yaxis_label_position := sd\<rparr>"

definition set_ticks_position :: "side \<Rightarrow> 'f Axes \<Rightarrow> 'f Axes" where
  "set_ticks_position sd a = a\<lparr>yaxis_ticks_position := sd\<rparr>"

definition set_useOffset :: "bool \<Rightarrow> 'f Axes \<Rightarrow> 'f Axes" where
  "set_useOffset b a = a\<lparr>useOffset := Some b\<rparr>"

text \<open>
  The local function \<open>make_patch_spines_invisible\<close>: frame on, patch invisible, every
  spine invisible.
\<close>

definition make_patch_spines_invisible :: "'f Axes \<Rightarrow> 'f Axes" where
  "make_patch_spines_invisible a =
     a\<lparr>frame_on := True, patch_visible := False,
       spines := (\<lambda>sd. (spines a sd)\<lparr>visible := False\<rparr>)\<rparr>"

text \<open>
  \<open>host_ax.twinx()\<close> is matplotlib's: it allocates a new Axes on the same figure. The
  new object starts as \<open>twin_axes\<close> (frame off, as the source's comment says; patch
  invisible; y label and ticks on the right; no spine position set).
\<close>

definition twin_axes :: "'f Axes" where
  "twin_axes =
     \<lparr>xlabel = None, ylabel = None, grid = None,
      spines = (\<lambda>sd. \<lparr>position = None, visible = True\<rparr>),
      frame_on = False, patch_visible = False,
      yaxis_label_position = Right, yaxis_ticks_position = Right,
      useOffset = None, legend_handles_labels = ([], []), attached_legend = None\<rparr>"

definition twinx :: "Axes_id \<Rightarrow> 'f figure \<Rightarrow> Axes_id \<times> 'f figure" where
  "twinx host_ax fig =
     (next_axes fig,
      fig\<lparr>axes_heap := (axes_heap fig)(next_axes fig := twin_axes),
          next_axes := Suc (next_axes fig)\<rparr>)"

text \<open>
  The body of \<open>for i, label in enumerate(y_label_left)\<close>; \<open>n\<close> is
  \<open>len(y_label_left)\<close>, the state is the list \<open>axs_left\<close> and the figure. The offset of
  the spine is the float \<open>-(len(y_label_left) - i - 1) * offset\<close>: an integer times the
  float \<open>offset\<close>.
\<close>

definition left_body ::
  "'f arith \<Rightarrow> Axes_id \<Rightarrow> nat \<Rightarrow> 'f \<Rightarrow> nat \<times> string \<Rightarrow> Axes_id list \<times> 'f figure
     \<Rightarrow> Axes_id list \<times> 'f figure" where
  "left_body ar host_ax n offset il st =
     (let (i, label) = il;
          (axs_left, fig) = st;
          (ax, fig) = (if i = 0 then (host_ax, fig) else twinx host_ax fig);
          axs_left = axs_left @ [ax];
          fig = upd ax (set_position Left
                  (''axes'', int_times ar (- (int n - int i - 1)) offset)) fig;
          fig = (if int i < int n - 1 then upd ax make_patch_spines_invisible fig else fig);
          fig = upd ax (set_visible Left True) fig;
          fig = upd ax (set_label_position Left) fig;
          fig = upd ax (set_ticks_position Left) fig;
          fig = upd ax (set_ylabel label) fig
      in (axs_left, fig))"

text \<open>
  The body of \<open>for i, label in enumerate(y_label_right)\<close>. The offset of the spine is
  the float \<open>1 + i * offset\<close>.
\<close>

definition right_body ::
  "'f arith \<Rightarrow> Axes_id \<Rightarrow> 'f \<Rightarrow> nat \<times> string \<Rightarrow> Axes_id list \<times> 'f figure
     \<Rightarrow> Axes_id list \<times> 'f figure" where
  "right_body ar host_ax offset il st =
     (let (i, label) = il;
          (axs_right, fig) = st;
          (ax, fig) = twinx host_ax fig;
          axs_right = axs_right @ [ax];
          fig = upd ax (set_position Right
                  (''axes'', int_plus ar 1 (int_times ar (int i) offset))) fig;
          fig = (if i > 0 then upd ax make_patch_spines_invisible fig else fig);
          fig = upd ax (set_visible Right True) fig;
          fig = upd ax (set_label_position Right) fig;
          fig = upd ax (set_ticks_position Right) fig;
          fig = upd ax (set_ylabel label) fig
      in (axs_right, fig))"

text \<open>\<open>Figure.tight_layout(rect=)\<close>: the layout pass that ends \<open>axes\<close>.\<close>

definition tight_layout :: "string list option \<Rightarrow> 'f figure \<Rightarrow> 'f figure" where
  "tight_layout rect fig =
     fig\<lparr>applied_layout := Some (case rect of None \<Rightarrow> Tight | Some r \<Rightarrow> Tight_rect r)\<rparr>"

text \<open>
  \<open>axes(host_ax, x_label, y_label_left, y_label_right, offset)\<close>, with the float
  arithmetic \<open>ar\<close>. The parameter \<open>tight\<close> is not read by the source. The function
  has no \<open>raise\<close>.
\<close>

definition axes ::
  "'f arith \<Rightarrow> Axes_id \<Rightarrow> string option \<Rightarrow> labels_arg option \<Rightarrow> labels_arg option \<Rightarrow> 'f
     \<Rightarrow> 'f figure \<Rightarrow> Axes_id list \<times> 'f figure" where
  "axes ar host_ax x_label y_label_left y_label_right offset fig =
     (let fig = (case x_label of None \<Rightarrow> fig | Some s \<Rightarrow> upd host_ax (set_xlabel s) fig);
          fig = upd host_ax (set_grid True ''both'') fig;
          (axs_left, fig) =
            (case y_label_left of
               Some (Label s) \<Rightarrow> ([host_ax], upd host_ax (set_ylabel s) fig)
             | Some (Labels ls) \<Rightarrow>
                 if truthy y_label_left
                 then fold (left_body ar host_ax (length ls) offset) (enumerate 0 ls) ([], fig)
                 else ([], fig)
             | None \<Rightarrow> ([], fig));
          (axs_right, fig) =
            (if truthy y_label_right
             then (let ls = (case y_label_right of
                               Some (Label s) \<Rightarrow> [s]
                             | Some (Labels ls) \<Rightarrow> ls
                             | None \<Rightarrow> [])
                   in fold (right_body ar host_ax offset) (enumerate 0 ls) ([], fig))
             else ([], fig));
          axs = axs_left @ axs_right;
          fig = fold (\<lambda>ax. upd ax (set_useOffset False)) axs fig;
          fig = (if suptitle fig \<noteq> None \<and> suptitle fig \<noteq> Some []
                 then tight_layout (Some [''0'', ''0.03'', ''1'', ''0.95'']) fig
                 else tight_layout None fig)
      in (axs, fig))"


text \<open>Reading the result: the position of a spine of an Axes of the figure.\<close>

definition spine_position :: "'f figure \<Rightarrow> Axes_id \<Rightarrow> side \<Rightarrow> (string \<times> 'f) option" where
  "spine_position fig ax sd = position (spines (axes_heap fig ax) sd)"

subsection \<open>Canvases, their callback registries and the drawn lines\<close>

type_synonym canvas = nat
type_synonym line = nat

datatype Event =
  MOUSE_BUTTON_PRESS | MOUSE_BUTTON_RELEASE | KEY_PRESS | KEY_RELEASE | MOUSE_MOVE | CLOSE

fun Event_value :: "Event \<Rightarrow> string" where
  "Event_value MOUSE_BUTTON_PRESS = ''button_press_event''"
| "Event_value MOUSE_BUTTON_RELEASE = ''button_release_event''"
| "Event_value KEY_PRESS = ''key_press_event''"
| "Event_value KEY_RELEASE = ''key_release_event''"
| "Event_value MOUSE_MOVE = ''motion_notify_event''"
| "Event_value CLOSE = ''close_event''"

text \<open>
  The two closures that \<open>add_mouse_tracking_vertical_line\<close> registers: \<open>on_mouse_move\<close>
  captures \<open>x_converter\<close> and \<open>line_kwargs\<close>, \<open>on_close\<close> captures nothing but the
  module's dictionaries. A converter that raises returns \<open>Inl\<close>.
\<close>

type_synonym converter = "real \<Rightarrow> error + real"

datatype callback = On_mouse_move "converter option" kwargs | On_close

record Line2D =
  line_axes :: Axes_id
  line_x :: real
  line_props :: kwargs

text \<open>
  The state the tracking code reads and writes: the two module dictionaries
  \<open>_mouse_tracking_vertical_lines_cid\<close> and \<open>_mouse_tracking_vertical_lines\<close> (the inner
  dictionary keeps its insertion order, so it is an association list), each canvas's
  callback registry with its counter of callback ids, the lines drawn by \<open>axvline\<close>
  and not yet removed, and the \<open>draw_idle\<close> requests. A figure and its canvas are one
  identity.
\<close>

record world =
  mouse_tracking_vertical_lines_cid :: "canvas \<rightharpoonup> nat \<times> nat"
  mouse_tracking_vertical_lines :: "canvas \<rightharpoonup> (Axes_id \<times> line option) list"
  callbacks :: "canvas \<Rightarrow> (nat \<times> string \<times> callback) list"
  next_cid :: "canvas \<Rightarrow> nat"
  artists :: "(line \<times> Line2D) list"
  next_line :: nat
  draw_idle_requests :: "canvas list"

definition mpl_connect :: "canvas \<Rightarrow> string \<Rightarrow> callback \<Rightarrow> world \<Rightarrow> nat \<times> world" where
  "mpl_connect c s func w =
     (next_cid w c,
      w\<lparr>callbacks := (callbacks w)(c := callbacks w c @ [(next_cid w c, s, func)]),
        next_cid := (next_cid w)(c := Suc (next_cid w c))\<rparr>)"

definition mpl_disconnect :: "canvas \<Rightarrow> nat \<Rightarrow> world \<Rightarrow> world" where
  "mpl_disconnect c cid w =
     w\<lparr>callbacks := (callbacks w)(c := filter (\<lambda>e. fst e \<noteq> cid) (callbacks w c))\<rparr>"

definition register_event :: "canvas \<Rightarrow> Event \<Rightarrow> callback \<Rightarrow> world \<Rightarrow> nat \<times> world" where
  "register_event fig event callback w = mpl_connect fig (Event_value event) callback w"

definition unregister_event :: "canvas \<Rightarrow> nat \<Rightarrow> world \<Rightarrow> world" where
  "unregister_event fig cid w = mpl_disconnect fig cid w"

text \<open>
  \<open>Line2D.remove()\<close> takes the line off its Axes, and raises when the line is no longer
  there (it was removed before, or its figure was cleared, as \<open>figure(fig=...)\<close>
  does with \<open>fig.clear()\<close>).
\<close>

definition Line2D_remove :: "line \<Rightarrow> world \<Rightarrow> error + world" where
  "Line2D_remove l w =
     (if l \<in> set (map fst (artists w))
      then Inr (w\<lparr>artists := filter (\<lambda>e. fst e \<noteq> l) (artists w)\<rparr>)
      else Inl RemoveError)"

text \<open>\<open>Axes.axvline(x=, **line_kwargs)\<close> and \<open>canvas.draw_idle()\<close>.\<close>

definition axvline :: "Axes_id \<Rightarrow> real \<Rightarrow> kwargs \<Rightarrow> world \<Rightarrow> line \<times> world" where
  "axvline ax x kw w =
     (next_line w,
      w\<lparr>artists := artists w @ [(next_line w, \<lparr>line_axes = ax, line_x = x, line_props = kw\<rparr>)],
        next_line := Suc (next_line w)\<rparr>)"

definition draw_idle :: "canvas \<Rightarrow> world \<Rightarrow> world" where
  "draw_idle c w = w\<lparr>draw_idle_requests := draw_idle_requests w @ [c]\<rparr>"

subsection \<open>\<open>add_mouse_tracking_vertical_line\<close> and its closures\<close>

text \<open>
  \<open>remove_lines(canvas_axes)\<close>: for each key of a snapshot of the keys, a line that is
  there is removed from its Axes, the key is deleted and set again to \<open>None\<close> (which
  moves it to the end of the dictionary). The key read in the body comes from the
  snapshot and every body leaves its key in the dictionary, so the lookup finds it. When
  \<open>remove()\<close> raises, the loop ends there: the dictionary (which is changed in place)
  and the Axes stay as the earlier rounds left them.
\<close>

fun remove_lines_loop ::
  "Axes_id list \<Rightarrow> (Axes_id \<times> line option) list \<Rightarrow> world
     \<Rightarrow> (error + unit) \<times> (Axes_id \<times> line option) list \<times> world" where
  "remove_lines_loop [] canvas_axes w = (Inr (), canvas_axes, w)"
| "remove_lines_loop (ax # axs) canvas_axes w =
     (case map_of canvas_axes ax of
        Some (Some l) \<Rightarrow>
          (case Line2D_remove l w of
             Inl e \<Rightarrow> (Inl e, canvas_axes, w)
           | Inr w' \<Rightarrow>
               remove_lines_loop axs (AList.update ax None (AList.delete ax canvas_axes)) w')
      | _ \<Rightarrow> remove_lines_loop axs canvas_axes w)"

definition remove_lines ::
  "(Axes_id \<times> line option) list \<Rightarrow> world
     \<Rightarrow> (error + unit) \<times> (Axes_id \<times> line option) list \<times> world" where
  "remove_lines canvas_axes w = remove_lines_loop (map fst canvas_axes) canvas_axes w"

text \<open>The body of \<open>for ax in my_axes: my_axes[ax] = ax.axvline(x=x, **line_kwargs)\<close>.\<close>

definition draw_body ::
  "real \<Rightarrow> kwargs \<Rightarrow> Axes_id \<Rightarrow> (Axes_id \<times> line option) list \<times> world
     \<Rightarrow> (Axes_id \<times> line option) list \<times> world" where
  "draw_body x kw ax st =
     (let (my_axes, w) = st;
          (l, w) = axvline ax x kw w
      in (AList.update ax (Some l) my_axes, w))"

text \<open>
  \<open>on_mouse_move(event)\<close> with \<open>event.canvas\<close> and \<open>event.xdata\<close>. The dictionary
  \<open>my_axes\<close> is the object stored in the module dictionary, so what \<open>remove_lines\<close> and
  the drawing loop do to it is written back under the canvas, also when \<open>remove_lines\<close>
  raises.
\<close>

definition on_mouse_move ::
  "converter option \<Rightarrow> kwargs \<Rightarrow> canvas \<Rightarrow> real option \<Rightarrow> world \<Rightarrow> (error + unit) \<times> world" where
  "on_mouse_move x_converter line_kwargs canvas xdata w =
     (case mouse_tracking_vertical_lines w canvas of
        None \<Rightarrow> (Inl KeyError, w)
      | Some my_axes \<Rightarrow>
          (case remove_lines my_axes w of
             (Inl e, my_axes, w) \<Rightarrow>
               (Inl e, w\<lparr>mouse_tracking_vertical_lines :=
                          (mouse_tracking_vertical_lines w)(canvas \<mapsto> my_axes)\<rparr>)
           | (Inr u, my_axes, w) \<Rightarrow>
               (let w = w\<lparr>mouse_tracking_vertical_lines :=
                           (mouse_tracking_vertical_lines w)(canvas \<mapsto> my_axes)\<rparr>
                in case xdata of
                     None \<Rightarrow> (Inr (), w)
                   | Some x \<Rightarrow>
                       (case (case x_converter of None \<Rightarrow> Inr x | Some f \<Rightarrow> f x) of
                          Inl e \<Rightarrow> (Inl e, w)
                        | Inr x \<Rightarrow>
                            (let (my_axes, w) =
                                   fold (draw_body x line_kwargs) (map fst my_axes) (my_axes, w);
                                 w = w\<lparr>mouse_tracking_vertical_lines :=
                                        (mouse_tracking_vertical_lines w)(canvas \<mapsto> my_axes)\<rparr>;
                                 w = draw_idle canvas w
                             in (Inr (), w))))))"

text \<open>
  \<open>on_close(event)\<close> with \<open>event.canvas\<close>. When \<open>remove_lines\<close> raises, the callbacks
  are unregistered and their ids forgotten already, and the dictionary of lines stays.
\<close>

definition on_close :: "canvas \<Rightarrow> world \<Rightarrow> (error + unit) \<times> world" where
  "on_close canvas w =
     (case mouse_tracking_vertical_lines_cid w canvas of
        None \<Rightarrow> (Inr (), w)
      | Some (mouse_cid, close_cid) \<Rightarrow>
          (let w = fold (unregister_event canvas) [mouse_cid, close_cid] w;
               w = w\<lparr>mouse_tracking_vertical_lines_cid :=
                      (mouse_tracking_vertical_lines_cid w)(canvas := None)\<rparr>
           in case mouse_tracking_vertical_lines w canvas of
                None \<Rightarrow> (Inl KeyError, w)
              | Some canvas_axes \<Rightarrow>
                  (case remove_lines canvas_axes w of
                     (Inl e, canvas_axes, w) \<Rightarrow>
                       (Inl e, w\<lparr>mouse_tracking_vertical_lines :=
                                  (mouse_tracking_vertical_lines w)(canvas \<mapsto> canvas_axes)\<rparr>)
                   | (Inr u, canvas_axes, w) \<Rightarrow>
                       (Inr (), w\<lparr>mouse_tracking_vertical_lines :=
                                   (mouse_tracking_vertical_lines w)(canvas := None)\<rparr>))))"

text \<open>The argument \<open>to_axes\<close>: \<open>None\<close>, one Axes or an iterable of Axes.\<close>

datatype to_axes_arg = One Axes_id | Many "Axes_id list"

text \<open>
  \<open>add_mouse_tracking_vertical_line(fig, to_axes, x_converter, **line_kwargs)\<close>. An Axes
  object is true in Python, so the filter \<open>if ax\<close> of the dictionary comprehension keeps
  every Axes.
\<close>

definition add_mouse_tracking_vertical_line ::
  "canvas \<Rightarrow> to_axes_arg option \<Rightarrow> converter option \<Rightarrow> kwargs \<Rightarrow> world
     \<Rightarrow> (error + unit) \<times> world" where
  "add_mouse_tracking_vertical_line fig to_axes x_converter line_kwargs w =
     (case on_close fig w of
        (Inl e, w) \<Rightarrow> (Inl e, w)
      | (Inr u, w) \<Rightarrow>
          (case to_axes of
             None \<Rightarrow> (Inr (), w)
           | Some t \<Rightarrow>
               (let to_axes = (case t of One a \<Rightarrow> [a] | Many as \<Rightarrow> as);
                    w = w\<lparr>mouse_tracking_vertical_lines :=
                           (mouse_tracking_vertical_lines w)
                             (fig \<mapsto> fold (\<lambda>ax d. AList.update ax None d) to_axes [])\<rparr>;
                    (mouse_cid, w) =
                      register_event fig MOUSE_MOVE (On_mouse_move x_converter line_kwargs) w;
                    (close_cid, w) = register_event fig CLOSE On_close w;
                    w = w\<lparr>mouse_tracking_vertical_lines_cid :=
                           (mouse_tracking_vertical_lines_cid w)(fig \<mapsto> (mouse_cid, close_cid))\<rparr>
                in (Inr (), w))))"

subsection \<open>Event delivery\<close>

text \<open>
  The canvas delivers an event to a snapshot of the callbacks registered under the
  event's name, in registration order; an exception of a callback ends the delivery and
  leaves through it.
\<close>

fun call :: "callback \<Rightarrow> canvas \<Rightarrow> real option \<Rightarrow> world \<Rightarrow> (error + unit) \<times> world" where
  "call (On_mouse_move x_converter line_kwargs) c xdata w =
     on_mouse_move x_converter line_kwargs c xdata w"
| "call On_close c xdata w = on_close c w"

fun process_all ::
  "callback list \<Rightarrow> canvas \<Rightarrow> real option \<Rightarrow> world \<Rightarrow> (error + unit) \<times> world" where
  "process_all [] c xdata w = (Inr (), w)"
| "process_all (cb # cbs) c xdata w =
     (case call cb c xdata w of
        (Inl e, w') \<Rightarrow> (Inl e, w')
      | (Inr u, w') \<Rightarrow> process_all cbs c xdata w')"

definition process :: "canvas \<Rightarrow> Event \<Rightarrow> real option \<Rightarrow> world \<Rightarrow> (error + unit) \<times> world" where
  "process c event xdata w =
     process_all
       (map (\<lambda>e. snd (snd e)) (filter (\<lambda>e. fst (snd e) = Event_value event) (callbacks w c)))
       c xdata w"

text \<open>
  What a program does to the tracking state: calls of
  \<open>add_mouse_tracking_vertical_line\<close>, pointer moves and closes delivered by a canvas.
  An exception of one action does not stop the next.
\<close>

datatype action =
  Enable canvas "to_axes_arg option" "converter option" kwargs
  | Move canvas "real option"
  | Close canvas

fun step :: "action \<Rightarrow> world \<Rightarrow> world" where
  "step (Enable c t f kw) w = snd (add_mouse_tracking_vertical_line c t f kw w)"
| "step (Move c xdata) w = snd (process c MOUSE_MOVE xdata w)"
| "step (Close c) w = snd (process c CLOSE None w)"

definition run :: "action list \<Rightarrow> world \<Rightarrow> world" where
  "run acts w = fold step acts w"

text \<open>The state of a program that has not touched the module nor any canvas yet.\<close>

definition init_world :: world where
  "init_world =
     \<lparr>mouse_tracking_vertical_lines_cid = Map.empty,
      mouse_tracking_vertical_lines = Map.empty,
      callbacks = (\<lambda>c. []),
      next_cid = (\<lambda>c. 0),
      artists = [],
      next_line = 0,
      draw_idle_requests = []\<rparr>"

subsection \<open>What is observed of a tracking session\<close>

text \<open>The subscriptions of a canvas under an event, and the lines drawn on an Axes.\<close>

definition subscriptions :: "world \<Rightarrow> canvas \<Rightarrow> Event \<Rightarrow> (nat \<times> string \<times> callback) list" where
  "subscriptions w c event = filter (\<lambda>e. fst (snd e) = Event_value event) (callbacks w c)"


subsection \<open>Notions used to state the properties of tracking\<close>

text \<open>
  The Axes that \<open>to_axes\<close> stands for, and the dictionary
  \<open>{ax: None for ax in to_axes if ax}\<close> that a session starts with.
\<close>

definition axes_list :: "to_axes_arg \<Rightarrow> Axes_id list" where
  "axes_list t = (case t of One a \<Rightarrow> [a] | Many as \<Rightarrow> as)"

definition new_session :: "Axes_id list \<Rightarrow> (Axes_id \<times> line option) list" where
  "new_session as = fold (\<lambda>ax d. AList.update ax None d) as []"

text \<open>What \<open>if x_converter: x = x_converter(x)\<close> makes of the pointer coordinate.\<close>

definition convert :: "converter option \<Rightarrow> real \<Rightarrow> error + real" where
  "convert f x = (case f of None \<Rightarrow> Inr x | Some g \<Rightarrow> g x)"

text \<open>A line is recorded in a session's dictionary when it is the value of some key.\<close>

definition recorded :: "(Axes_id \<times> line option) list \<Rightarrow> line \<Rightarrow> bool" where
  "recorded d l = list_ex (\<lambda>ax. map_of d ax = Some (Some l)) (map fst d)"

text \<open>
  A session's dictionary is live when its keys are distinct (as the keys of a dictionary
  are), every line it records is on an Axes still, and no line is recorded under two keys
  (the keys that record a line are the one key of that line).
\<close>

definition live :: "world \<Rightarrow> (Axes_id \<times> line option) list \<Rightarrow> bool" where
  "live w d =
     (distinct (map fst d) \<and>
      list_all (\<lambda>ax. case map_of d ax of
                       Some (Some l) \<Rightarrow>
                         l \<in> set (map fst (artists w)) \<and>
                         filter (\<lambda>ax'. map_of d ax' = Some (Some l)) (map fst d) = [ax]
                     | _ \<Rightarrow> True)
        (map fst d))"

text \<open>
  The state in which \<open>on_close\<close> calls \<open>remove_lines\<close>: both callbacks unregistered,
  their ids forgotten.
\<close>

definition forget_ids :: "canvas \<Rightarrow> nat \<Rightarrow> nat \<Rightarrow> world \<Rightarrow> world" where
  "forget_ids c m k w =
     w\<lparr>callbacks := (callbacks w)(c := filter (\<lambda>e. fst e \<noteq> m \<and> fst e \<noteq> k) (callbacks w c)),
       mouse_tracking_vertical_lines_cid := (mouse_tracking_vertical_lines_cid w)(c := None)\<rparr>"

text \<open>
  The state that \<open>on_mouse_move\<close> reaches once \<open>remove_lines\<close> has run on a live
  dictionary: the recorded lines are gone from the Axes and every entry of the dictionary
  is \<open>None\<close>.
\<close>

definition clear_session :: "canvas \<Rightarrow> (Axes_id \<times> line option) list \<Rightarrow> world \<Rightarrow> world" where
  "clear_session c d w =
     w\<lparr>artists := filter (\<lambda>e. \<not> recorded d (fst e)) (artists w),
       mouse_tracking_vertical_lines :=
         (mouse_tracking_vertical_lines w)(c \<mapsto> fst (snd (remove_lines d w)))\<rparr>"



text \<open>
  The registry of a canvas holds what the dictionary of callback ids says: a canvas
  without recorded ids has no callback; a canvas with recorded ids has the two callbacks
  with these ids. (The registries are used by the tracking code only.)
\<close>

definition session_wf :: "world \<Rightarrow> canvas \<Rightarrow> bool" where
  "session_wf w c =
     (case mouse_tracking_vertical_lines_cid w c of
        None \<Rightarrow> callbacks w c = []
      | Some (m, k) \<Rightarrow>
          m \<noteq> k \<and>
          (\<exists>f kw. callbacks w c =
             [(m, Event_value MOUSE_MOVE, On_mouse_move f kw),
              (k, Event_value CLOSE, On_close)]))"

definition tracking_inv :: "world \<Rightarrow> bool" where
  "tracking_inv w = (\<forall>c. session_wf w c)"

text \<open>
  The two module dictionaries agree on a canvas, and its session, if there is one, is
  live: without recorded callback ids there is no dictionary of lines, with them there is
  a live one.
\<close>

definition session_sound :: "world \<Rightarrow> canvas \<Rightarrow> bool" where
  "session_sound w c =
     (case mouse_tracking_vertical_lines_cid w c of
        None \<Rightarrow> mouse_tracking_vertical_lines w c = None
      | Some mk \<Rightarrow>
          (case mouse_tracking_vertical_lines w c of
             None \<Rightarrow> False
           | Some d \<Rightarrow> live w d))"

subsection \<open>Concrete figures and states for the examples\<close>

text \<open>Two Axes: the first with two legend entries, every other one with a single entry.\<close>

definition legend_fig :: "real figure" where
  "legend_fig =
     \<lparr>axes_heap = (\<lambda>a. twin_axes\<lparr>legend_handles_labels :=
                     (if a = 0 then ([1, 2], [''a'', ''b'']) else ([3], [''c'']))\<rparr>),
      next_axes = 2, suptitle = None, applied_layout = None\<rparr>"


text \<open>Tracking is enabled twice on canvas 0.\<close>

definition twice :: "action list" where
  "twice = [Enable 0 (Some (Many [7, 8])) None [], Enable 0 (Some (One 7)) None []]"

text \<open>
  Tracking is enabled on canvas 0 for Axes 7 and 8 and the pointer moves to \<open>x = 5\<close>:
  one line is drawn on each Axes.
\<close>

definition tracked_world :: world where
  "tracked_world = run [Enable 0 (Some (Many [7, 8])) None [], Move 0 (Some 5)] init_world"


text \<open>
  The same state after the figure has been cleared: the two lines are on no Axes any
  more, and the dictionary still records them.
\<close>

definition stale_world :: world where
  "stale_world = tracked_world\<lparr>artists := []\<rparr>"



text \<open>Matplotlib is given no further arguments for the legend, so it refuses none.\<close>

definition no_extra :: "string list \<Rightarrow> kwargs \<Rightarrow> error option" where
  "no_extra args kw = None"

text \<open>A converter that raises on every coordinate.\<close>

definition failing :: converter where
  "failing x = Inl (ConverterFault ''no such sample'')"

section \<open>Supporting lemmas\<close>

subsection \<open>The legend\<close>

lemma fold_collect_step:
  "fold (collect_step fig) axs (ls, bs) =
     (ls @ concat (map (\<lambda>a. fst (legend_handles_labels (axes_heap fig a))) axs),
      bs @ concat (map (\<lambda>a. snd (legend_handles_labels (axes_heap fig a))) axs))"
  by (induction axs arbitrary: ls bs) (simp_all add: collect_step_def split_beta)

lemma collect_eq:
  "collect fig axs =
     (concat (map (\<lambda>a. fst (legend_handles_labels (axes_heap fig a))) axs),
      concat (map (\<lambda>a. snd (legend_handles_labels (axes_heap fig a))) axs))"
  by (simp add: collect_def fold_collect_step)

subsection \<open>The stack of axes\<close>

lemma axes_heap_upd [simp]:
  "axes_heap (upd a f fig) b = (if b = a then f (axes_heap fig a) else axes_heap fig b)"
  by (simp add: upd_def)

lemma next_axes_upd [simp]: "next_axes (upd a f fig) = next_axes fig"
  by (simp add: upd_def)

lemma suptitle_upd [simp]: "suptitle (upd a f fig) = suptitle fig"
  by (simp add: upd_def)


lemma right_body_props:
  assumes "right_body ar h off (i, label) (acc, fig) = (acc', fig')"
  defines "ax \<equiv> next_axes fig"
  shows "acc' = acc @ [ax]"
    and "next_axes fig' = Suc (next_axes fig)"
    and "\<And>b. b \<noteq> ax \<Longrightarrow> axes_heap fig' b = axes_heap fig b"
    and "spine_position fig' ax Right = Some (''axes'', int_plus ar 1 (int_times ar (int i) off))"
    and "suptitle fig' = suptitle fig"
  using assms
  by (auto simp: right_body_def twinx_def Let_def spine_position_def set_position_def
      make_patch_spines_invisible_def set_visible_def set_label_position_def
      set_ticks_position_def set_ylabel_def split: if_splits)


lemma right_fold_twins:
  "fold (right_body ar h off) (enumerate i ls) (acc, fig) = (acc', fig') \<Longrightarrow>
     acc' = acc @ [next_axes fig ..< next_axes fig + length ls] \<and>
     next_axes fig' = next_axes fig + length ls \<and>
     suptitle fig' = suptitle fig \<and>
     (\<forall>b < next_axes fig. axes_heap fig' b = axes_heap fig b) \<and>
     (\<forall>j < length ls. spine_position fig' (next_axes fig + j) Right =
        Some (''axes'', int_plus ar 1 (int_times ar (int (i + j)) off)))"
proof (induction ls arbitrary: i acc fig)
  case Nil
  then show ?case by simp
next
  case (Cons l ls)
  obtain acc1 fig1 where b: "right_body ar h off (i, l) (acc, fig) = (acc1, fig1)"
    by (cases "right_body ar h off (i, l) (acc, fig)")
  note p = right_body_props [OF b]
  from Cons.prems(1) b
  have f: "fold (right_body ar h off) (enumerate (Suc i) ls) (acc1, fig1) = (acc', fig')"
    by simp
  have ih: "acc' = acc1 @ [next_axes fig1 ..< next_axes fig1 + length ls]"
    "next_axes fig' = next_axes fig1 + length ls"
    "suptitle fig' = suptitle fig1"
    "\<forall>b < next_axes fig1. axes_heap fig' b = axes_heap fig1 b"
    "\<forall>j < length ls. spine_position fig' (next_axes fig1 + j) Right =
        Some (''axes'', int_plus ar 1 (int_times ar (int (Suc i + j)) off))"
    using Cons.IH [OF f] by simp_all
  have n1: "next_axes fig1 = Suc (next_axes fig)" using p(2) by simp
  have 1: "acc' = acc @ [next_axes fig ..< next_axes fig + length (l # ls)]"
  proof -
    have "[next_axes fig ..< next_axes fig + length (l # ls)] =
            next_axes fig # [Suc (next_axes fig) ..< Suc (next_axes fig) + length ls]"
      by (simp add: upt_conv_Cons del: upt_Suc)
    with ih(1) p(1) n1 show ?thesis by simp
  qed
  have 2: "next_axes fig' = next_axes fig + length (l # ls)"
    using ih(2) n1 by simp
  have 3: "suptitle fig' = suptitle fig" using ih(3) p(5) by simp
  have 4: "\<forall>b < next_axes fig. axes_heap fig' b = axes_heap fig b"
    using ih(4) p(3) n1 by auto
  have 5: "spine_position fig' (next_axes fig + j) Right =
        Some (''axes'', int_plus ar 1 (int_times ar (int (i + j)) off))"
    if "j < length (l # ls)" for j
  proof (cases j)
    case 0
    have "axes_heap fig' (next_axes fig) = axes_heap fig1 (next_axes fig)"
      using ih(4) n1 by simp
    then show ?thesis using p(4) 0 by (simp add: spine_position_def)
  next
    case (Suc k)
    with that have "k < length ls" by simp
    with ih(5) n1 Suc show ?thesis by simp
  qed
  from 1 2 3 4 5 show ?case by blast
qed

lemma fold_useOffset:
  "next_axes (fold (\<lambda>ax. upd ax (set_useOffset b)) axs fig) = next_axes fig \<and>
   suptitle (fold (\<lambda>ax. upd ax (set_useOffset b)) axs fig) = suptitle fig \<and>
   spine_position (fold (\<lambda>ax. upd ax (set_useOffset b)) axs fig) a sd = spine_position fig a sd"
  by (induction axs arbitrary: fig) (simp_all add: spine_position_def set_useOffset_def)


lemma spine_position_tight_layout [simp]:
  "spine_position (tight_layout rect fig) a sd = spine_position fig a sd"
  by (simp add: tight_layout_def spine_position_def)


lemma axes_right_single:
  "s \<noteq> [] \<Longrightarrow>
     axes ar h xl yl (Some (Label s)) off fig = axes ar h xl yl (Some (Labels [s])) off fig"
  by (simp add: axes_def)

lemma axes_Label_unfold:
  "axes ar h xl (Some (Label s)) (Some (Labels rs)) off fig =
     (let fig0 = upd h (set_ylabel s) (upd h (set_grid True ''both'')
                   (case xl of None \<Rightarrow> fig | Some s \<Rightarrow> upd h (set_xlabel s) fig));
          R = fold (right_body ar h off) (enumerate 0 rs) ([], fig0);
          figU = fold (\<lambda>ax. upd ax (set_useOffset False)) (fst R)
                   (upd h (set_useOffset False) (snd R))
      in (h # fst R, if suptitle figU \<noteq> None \<and> suptitle figU \<noteq> Some []
               then tight_layout (Some [''0'', ''0.03'', ''1'', ''0.95'']) figU
               else tight_layout None figU))"
  by (cases rs) (simp_all add: axes_def Let_def split_beta)

lemma axes_single_label:
  fixes ar :: "'f arith" and xl :: "string option" and s :: string
    and rs :: "string list" and off :: 'f
  assumes h: "h < next_axes fig"
  defines "r \<equiv> axes ar h xl (Some (Label s)) (Some (Labels rs)) off fig"
  shows "fst r = h # [next_axes fig ..< next_axes fig + length rs]"
    and "spine_position (snd r) h Left = spine_position fig h Left"
    and "\<forall>j < length rs. spine_position (snd r) (next_axes fig + j) Right =
           Some (''axes'', int_plus ar 1 (int_times ar (int j) off))"
proof -
  define fig0 where "fig0 = upd h (set_ylabel s) (upd h (set_grid True ''both'')
      (case xl of None \<Rightarrow> fig | Some s \<Rightarrow> upd h (set_xlabel s) fig))"
  have n0: "next_axes fig0 = next_axes fig"
    by (simp add: fig0_def split: option.splits)
  have p0: "spine_position fig0 h Left = spine_position fig h Left"
    by (simp add: fig0_def spine_position_def set_ylabel_def set_grid_def set_xlabel_def
        split: option.splits)
  obtain accR figR where
    fr: "fold (right_body ar h off) (enumerate 0 rs) ([], fig0) = (accR, figR)"
    by (cases "fold (right_body ar h off) (enumerate 0 rs) ([], fig0)")
  define figU where "figU = fold (\<lambda>ax. upd ax (set_useOffset False)) accR
      (upd h (set_useOffset False) figR)"
  have r: "fst r = h # accR"
    "\<And>a sd. spine_position (snd r) a sd = spine_position figU a sd"
    unfolding r_def axes_Label_unfold
    by (simp_all add: Let_def fig0_def [symmetric] fr figU_def [symmetric])
  note pr = right_fold_twins [OF fr, simplified, unfolded n0]
  show "fst r = h # [next_axes fig ..< next_axes fig + length rs]"
    using pr by (simp add: r(1))
  have "spine_position figU a sd = spine_position (upd h (set_useOffset False) figR) a sd"
    for a sd
    unfolding figU_def using fold_useOffset by blast
  then have U: "spine_position figU a sd = spine_position figR a sd" for a sd
    by (simp add: spine_position_def set_useOffset_def)
  have "axes_heap figR h = axes_heap fig0 h" using pr h by blast
  then have "spine_position figR h Left = spine_position fig0 h Left"
    by (simp add: spine_position_def)
  then show "spine_position (snd r) h Left = spine_position fig h Left"
    using p0 by (simp add: r(2) U)
  show "\<forall>j < length rs. spine_position (snd r) (next_axes fig + j) Right =
           Some (''axes'', int_plus ar 1 (int_times ar (int j) off))"
    using pr by (simp add: r(2) U)
qed



lemma valid_loc_LegendLocation: "valid_loc (LegendLocation_value l)"
  by (cases l) (simp_all add: valid_loc_def)

subsection \<open>Tracking sessions\<close>

lemma recorded_iff: "recorded d l \<longleftrightarrow> (\<exists>ax. map_of d ax = Some (Some l))"
proof -
  have "ax \<in> fst ` set d" if "map_of d ax = Some (Some l)" for ax
    using that by (metis map_of_eq_None_iff option.distinct(1))
  then show ?thesis by (auto simp: recorded_def list_ex_iff)
qed

lemma filter_eq_single_iff:
  assumes "distinct xs" and "x \<in> set xs"
  shows "filter P xs = [x] \<longleftrightarrow> (\<forall>y \<in> set xs. P y \<longleftrightarrow> y = x)"
proof
  assume f: "filter P xs = [x]"
  have "set (filter P xs) = {x}" by (simp add: f)
  then show "\<forall>y \<in> set xs. P y \<longleftrightarrow> y = x" by auto
next
  assume a: "\<forall>y \<in> set xs. P y \<longleftrightarrow> y = x"
  then have "filter P xs = filter (\<lambda>y. y = x) xs" by (intro filter_cong) auto
  also have "\<dots> = [x]" using assms
  proof (induction xs)
    case Nil
    then show ?case by simp
  next
    case (Cons y ys)
    show ?case
    proof (cases "y = x")
      case True
      with Cons.prems have "x \<notin> set ys" by simp
      then have "filter (\<lambda>y. y = x) ys = []" by (auto simp: filter_empty_conv)
      with True show ?thesis by simp
    next
      case False
      with Cons show ?thesis by simp
    qed
  qed
  finally show "filter P xs = [x]" .
qed

lemma live_iff:
  "live w d \<longleftrightarrow>
     distinct (map fst d) \<and>
     (\<forall>ax l. map_of d ax = Some (Some l) \<longrightarrow>
        l \<in> fst ` set (artists w) \<and>
        (\<forall>ax'. map_of d ax' = Some (Some l) \<longrightarrow> ax' = ax))"
proof (cases "distinct (map fst d)")
  case False
  then show ?thesis by (simp add: live_def)
next
  case True
  have key: "ax \<in> set (map fst d)" if "map_of d ax = Some v" for ax v
    using that by (metis map_of_eq_None_iff option.distinct(1) set_map)
  have single: "filter (\<lambda>ax'. map_of d ax' = Some (Some l)) (map fst d) = [ax] \<longleftrightarrow>
      (\<forall>ax'. map_of d ax' = Some (Some l) \<longleftrightarrow> ax' = ax)"
    if "map_of d ax = Some (Some l)" for ax l
  proof -
    have "filter (\<lambda>ax'. map_of d ax' = Some (Some l)) (map fst d) = [ax] \<longleftrightarrow>
        (\<forall>ax' \<in> set (map fst d). map_of d ax' = Some (Some l) \<longleftrightarrow> ax' = ax)"
      by (rule filter_eq_single_iff [OF True key [OF that]])
    also have "\<dots> \<longleftrightarrow> (\<forall>ax'. map_of d ax' = Some (Some l) \<longleftrightarrow> ax' = ax)"
      using key that by blast
    finally show ?thesis .
  qed
  have c: "(case m of Some (Some l) \<Rightarrow> Q l | _ \<Rightarrow> True) =
      (\<forall>l. m = Some (Some l) \<longrightarrow> Q l)" for m :: "nat option option" and Q
    by (auto split: option.splits)
  have "live w d \<longleftrightarrow>
     (\<forall>ax \<in> set (map fst d). \<forall>l. map_of d ax = Some (Some l) \<longrightarrow>
        l \<in> set (map fst (artists w)) \<and>
        filter (\<lambda>ax'. map_of d ax' = Some (Some l)) (map fst d) = [ax])"
    unfolding live_def list_all_iff c by (simp only: True simp_thms)
  also have "\<dots> \<longleftrightarrow>
     (\<forall>ax l. map_of d ax = Some (Some l) \<longrightarrow>
        l \<in> set (map fst (artists w)) \<and>
        filter (\<lambda>ax'. map_of d ax' = Some (Some l)) (map fst d) = [ax])"
    using key by blast
  also have "\<dots> \<longleftrightarrow>
     (\<forall>ax l. map_of d ax = Some (Some l) \<longrightarrow>
        l \<in> fst ` set (artists w) \<and>
        (\<forall>ax'. map_of d ax' = Some (Some l) \<longrightarrow> ax' = ax))"
    using single by (simp; blast)
  finally show ?thesis using True by simp
qed

lemma remove_lines_loop_frame:
  "\<exists>A. snd (snd (remove_lines_loop ks d w)) = w\<lparr>artists := A\<rparr>"
proof (induction ks arbitrary: d w)
  case Nil
  have "w = w\<lparr>artists := artists w\<rparr>" by simp
  then show ?case by (metis remove_lines_loop.simps(1) snd_conv)
next
  case (Cons k ks)
  have self: "\<exists>A. w = w\<lparr>artists := A\<rparr>" by (rule exI [of _ "artists w"]) simp
  show ?case
  proof (cases "map_of d k")
    case None
    then show ?thesis using Cons.IH [of d w] by simp
  next
    case (Some v)
    show ?thesis
    proof (cases v)
      case None
      then show ?thesis using Some Cons.IH [of d w] by simp
    next
      case l: (Some l)
      show ?thesis
      proof (cases "l \<in> set (map fst (artists w))")
        case True
        obtain A where "snd (snd (remove_lines_loop ks (AList.update k None (AList.delete k d))
            (w\<lparr>artists := filter (\<lambda>e. fst e \<noteq> l) (artists w)\<rparr>))) =
            w\<lparr>artists := filter (\<lambda>e. fst e \<noteq> l) (artists w)\<rparr>\<lparr>artists := A\<rparr>"
          using Cons.IH by blast
        then show ?thesis using Some l True by (auto simp: Line2D_remove_def)
      next
        case False
        then show ?thesis using Some l self by (simp add: Line2D_remove_def)
      qed
    qed
  qed
qed

lemma remove_lines_loop_live:
  "distinct ks \<Longrightarrow>
   \<forall>ax \<in> set ks. \<forall>l. map_of d ax = Some (Some l) \<longrightarrow> l \<in> fst ` set (artists w) \<Longrightarrow>
   \<forall>ax ax' l. map_of d ax = Some (Some l) \<and> map_of d ax' = Some (Some l) \<longrightarrow> ax = ax' \<Longrightarrow>
   \<exists>d'. remove_lines_loop ks d w =
           (Inr (), d',
            w\<lparr>artists :=
                filter (\<lambda>e. \<forall>ax \<in> set ks. map_of d ax \<noteq> Some (Some (fst e))) (artists w)\<rparr>) \<and>
         (\<forall>ax. map_of d' ax =
            (if ax \<in> set ks \<and> map_of d ax \<noteq> None then Some None else map_of d ax)) \<and>
         (distinct (map fst d) \<longrightarrow> distinct (map fst d'))"
proof (induction ks arbitrary: d w)
  case Nil
  then show ?case by simp
next
  case (Cons k ks)
  from Cons.prems(1) have dk: "distinct ks" and kk: "k \<notin> set ks" by simp_all
  show ?case
  proof (cases "\<exists>l. map_of d k = Some (Some l)")
    case True
    then obtain l where l: "map_of d k = Some (Some l)" by blast
    with Cons.prems(2) have lin: "l \<in> fst ` set (artists w)" by simp
    define d1 where "d1 = AList.update k None (AList.delete k d)"
    define w1 where "w1 = w\<lparr>artists := filter (\<lambda>e. fst e \<noteq> l) (artists w)\<rparr>"
    have m1: "map_of d1 = (map_of d)(k \<mapsto> None)"
      by (simp add: d1_def update_conv' delete_conv')
    have step: "remove_lines_loop (k # ks) d w = remove_lines_loop ks d1 w1"
      using l lin by (simp add: Line2D_remove_def d1_def w1_def)
    have p2: "\<forall>ax \<in> set ks. \<forall>l'. map_of d1 ax = Some (Some l') \<longrightarrow> l' \<in> fst ` set (artists w1)"
    proof (intro ballI allI impI)
      fix ax l' assume ax: "ax \<in> set ks" and r: "map_of d1 ax = Some (Some l')"
      from ax kk have "ax \<noteq> k" by auto
      with r have r': "map_of d ax = Some (Some l')" by (simp add: m1)
      with Cons.prems(2) ax have "l' \<in> fst ` set (artists w)" by simp
      moreover have "l' \<noteq> l" using Cons.prems(3) l r' \<open>ax \<noteq> k\<close> by blast
      ultimately show "l' \<in> fst ` set (artists w1)" by (auto simp: w1_def)
    qed
    have p3: "\<forall>ax ax' l. map_of d1 ax = Some (Some l) \<and> map_of d1 ax' = Some (Some l) \<longrightarrow> ax = ax'"
      using Cons.prems(3) by (auto simp: m1 split: if_splits)
    from Cons.IH [OF dk p2 p3] obtain d' where
      r: "remove_lines_loop ks d1 w1 =
           (Inr (), d',
            w1\<lparr>artists :=
                filter (\<lambda>e. \<forall>ax \<in> set ks. map_of d1 ax \<noteq> Some (Some (fst e))) (artists w1)\<rparr>)"
      and m: "\<forall>ax. map_of d' ax =
            (if ax \<in> set ks \<and> map_of d1 ax \<noteq> None then Some None else map_of d1 ax)"
      and dist: "distinct (map fst d1) \<longrightarrow> distinct (map fst d')"
      by blast
    have a: "\<forall>ax. map_of d' ax =
        (if ax \<in> set (k # ks) \<and> map_of d ax \<noteq> None then Some None else map_of d ax)"
      using m l by (auto simp: m1)
    have "filter (\<lambda>e. \<forall>ax \<in> set ks. map_of d1 ax \<noteq> Some (Some (fst e)))
            (filter (\<lambda>e. fst e \<noteq> l) (artists w)) =
          filter (\<lambda>e. \<forall>ax \<in> set (k # ks). map_of d ax \<noteq> Some (Some (fst e))) (artists w)"
      using l by (auto simp: m1 intro!: filter_cong)
    then have ww: "w1\<lparr>artists :=
                filter (\<lambda>e. \<forall>ax \<in> set ks. map_of d1 ax \<noteq> Some (Some (fst e))) (artists w1)\<rparr> =
            w\<lparr>artists :=
                filter (\<lambda>e. \<forall>ax \<in> set (k # ks). map_of d ax \<noteq> Some (Some (fst e)))
                  (artists w)\<rparr>"
      by (simp add: w1_def)
    have c: "remove_lines_loop (k # ks) d w =
           (Inr (), d',
            w\<lparr>artists :=
                filter (\<lambda>e. \<forall>ax \<in> set (k # ks). map_of d ax \<noteq> Some (Some (fst e)))
                  (artists w)\<rparr>)"
      by (simp only: step r ww)
    have "distinct (map fst d) \<longrightarrow> distinct (map fst d1)"
      by (simp add: d1_def distinct_update distinct_delete)
    with a c dist show ?thesis by blast
  next
    case False
    then have step: "remove_lines_loop (k # ks) d w = remove_lines_loop ks d w"
      by (auto split: option.splits)
    have p2: "\<forall>ax \<in> set ks. \<forall>l. map_of d ax = Some (Some l) \<longrightarrow> l \<in> fst ` set (artists w)"
      using Cons.prems(2) by simp
    from Cons.IH [OF dk p2 Cons.prems(3)] obtain d' where
      r: "remove_lines_loop ks d w =
           (Inr (), d',
            w\<lparr>artists :=
                filter (\<lambda>e. \<forall>ax \<in> set ks. map_of d ax \<noteq> Some (Some (fst e))) (artists w)\<rparr>)"
      and m: "\<forall>ax. map_of d' ax =
            (if ax \<in> set ks \<and> map_of d ax \<noteq> None then Some None else map_of d ax)"
      and dist: "distinct (map fst d) \<longrightarrow> distinct (map fst d')"
      by blast
    have a: "\<forall>ax. map_of d' ax =
        (if ax \<in> set (k # ks) \<and> map_of d ax \<noteq> None then Some None else map_of d ax)"
      using m False by auto
    have "filter (\<lambda>e. \<forall>ax \<in> set ks. map_of d ax \<noteq> Some (Some (fst e))) (artists w) =
          filter (\<lambda>e. \<forall>ax \<in> set (k # ks). map_of d ax \<noteq> Some (Some (fst e))) (artists w)"
      using False by (auto intro!: filter_cong)
    then have c: "remove_lines_loop (k # ks) d w =
           (Inr (), d',
            w\<lparr>artists :=
                filter (\<lambda>e. \<forall>ax \<in> set (k # ks). map_of d ax \<noteq> Some (Some (fst e)))
                  (artists w)\<rparr>)"
      by (simp only: step r)
    with a dist show ?thesis by blast
  qed
qed

lemma remove_lines_live:
  assumes "live w d"
  shows "remove_lines d w =
           (Inr (), fst (snd (remove_lines d w)),
            w\<lparr>artists := filter (\<lambda>e. \<not> recorded d (fst e)) (artists w)\<rparr>)"
    and "map_of (fst (snd (remove_lines d w))) =
           (\<lambda>ax. if ax \<in> fst ` set d then Some None else None)"
    and "fst ` set (fst (snd (remove_lines d w))) = fst ` set d"
    and "distinct (map fst (fst (snd (remove_lines d w))))"
proof -
  from assms have dist: "distinct (map fst d)"
    and rec: "\<forall>ax l. map_of d ax = Some (Some l) \<longrightarrow>
        l \<in> fst ` set (artists w) \<and> (\<forall>ax'. map_of d ax' = Some (Some l) \<longrightarrow> ax' = ax)"
    by (simp_all add: live_iff)
  have p2: "\<forall>ax \<in> set (map fst d). \<forall>l. map_of d ax = Some (Some l) \<longrightarrow>
      l \<in> fst ` set (artists w)"
    using rec by blast
  have p3: "\<forall>ax ax' l. map_of d ax = Some (Some l) \<and> map_of d ax' = Some (Some l) \<longrightarrow> ax = ax'"
    using rec by blast
  from remove_lines_loop_live [OF dist p2 p3] obtain d' where
    r: "remove_lines d w =
           (Inr (), d',
            w\<lparr>artists := filter (\<lambda>e. \<forall>ax \<in> set (map fst d). map_of d ax \<noteq> Some (Some (fst e)))
                           (artists w)\<rparr>)"
    and m: "\<forall>ax. map_of d' ax =
            (if ax \<in> set (map fst d) \<and> map_of d ax \<noteq> None then Some None else map_of d ax)"
    and dd: "distinct (map fst d')"
    using dist unfolding remove_lines_def by blast
  have k: "ax \<in> set (map fst d) \<longleftrightarrow> map_of d ax \<noteq> None" for ax
    by (simp add: map_of_eq_None_iff)
  have f: "filter (\<lambda>e. \<forall>ax \<in> set (map fst d). map_of d ax \<noteq> Some (Some (fst e))) (artists w) =
        filter (\<lambda>e. \<not> recorded d (fst e)) (artists w)"
    unfolding recorded_iff by (intro filter_cong refl) (metis k option.distinct(1))
  have d': "fst (snd (remove_lines d w)) = d'" by (simp add: r)
  show "remove_lines d w =
           (Inr (), fst (snd (remove_lines d w)),
            w\<lparr>artists := filter (\<lambda>e. \<not> recorded d (fst e)) (artists w)\<rparr>)"
    unfolding d' using r f by simp
  have k': "ax \<in> fst ` set d \<longleftrightarrow> map_of d ax \<noteq> None" for ax
    by (simp add: map_of_eq_None_iff)
  show mm: "map_of (fst (snd (remove_lines d w))) =
           (\<lambda>ax. if ax \<in> fst ` set d then Some None else None)"
    unfolding d' using m by (intro ext) (simp add: k')
  have "dom (map_of (fst (snd (remove_lines d w)))) = fst ` set d"
    by (force simp: mm split: if_splits)
  then show "fst ` set (fst (snd (remove_lines d w))) = fst ` set d"
    by (simp add: dom_map_of_conv_image_fst)
  show "distinct (map fst (fst (snd (remove_lines d w))))" unfolding d' by (rule dd)
qed


lemma draw_body_eq:
  "draw_body x kw ax (d, w) =
     (AList.update ax (Some (next_line w)) d,
      w\<lparr>artists := artists w @ [(next_line w, \<lparr>line_axes = ax, line_x = x, line_props = kw\<rparr>)],
        next_line := Suc (next_line w)\<rparr>)"
  by (simp add: draw_body_def axvline_def)





lemma fold_draw_body_frame_ex:
  "\<exists>A n. snd (fold (draw_body x kw) ks (d, w)) = w\<lparr>artists := A, next_line := n\<rparr>"
proof (induction ks arbitrary: d w)
  case Nil
  have "w = w\<lparr>artists := artists w, next_line := next_line w\<rparr>" by simp
  then show ?case by (metis fold_simps(1) snd_conv)
next
  case (Cons k ks)
  obtain A n where "snd (fold (draw_body x kw) ks (draw_body x kw k (d, w))) =
      (snd (draw_body x kw k (d, w)))\<lparr>artists := A, next_line := n\<rparr>"
    using Cons.IH [of "fst (draw_body x kw k (d, w))" "snd (draw_body x kw k (d, w))"]
    by auto
  then have "snd (fold (draw_body x kw) (k # ks) (d, w)) = w\<lparr>artists := A, next_line := n\<rparr>"
    by (simp add: draw_body_eq)
  then show ?case by blast
qed

lemma fold_draw_body_frame:
  "snd (fold (draw_body x kw) ks (d, w)) =
     w\<lparr>artists := artists (snd (fold (draw_body x kw) ks (d, w))),
       next_line := next_line (snd (fold (draw_body x kw) ks (d, w)))\<rparr>"
proof -
  obtain A n where e: "snd (fold (draw_body x kw) ks (d, w)) = w\<lparr>artists := A, next_line := n\<rparr>"
    using fold_draw_body_frame_ex by blast
  show ?thesis by (simp add: e)
qed




lemma live_frame: "artists w' = artists w \<Longrightarrow> live w' d = live w d"
  by (simp add: live_iff)


lemma on_close_inactive:
  "mouse_tracking_vertical_lines_cid w c = None \<Longrightarrow> on_close c w = (Inr (), w)"
  by (simp add: on_close_def)

lemma on_close_unfold:
  assumes "mouse_tracking_vertical_lines_cid w c = Some (m, k)"
  shows "on_close c w =
     (case mouse_tracking_vertical_lines w c of
        None \<Rightarrow> (Inl KeyError, forget_ids c m k w)
      | Some d \<Rightarrow>
          (case remove_lines d (forget_ids c m k w) of
             (Inl e, d', w') \<Rightarrow>
               (Inl e, w'\<lparr>mouse_tracking_vertical_lines :=
                           (mouse_tracking_vertical_lines w')(c \<mapsto> d')\<rparr>)
           | (Inr u, d', w') \<Rightarrow>
               (Inr (), w'\<lparr>mouse_tracking_vertical_lines :=
                            (mouse_tracking_vertical_lines w')(c := None)\<rparr>)))"
  using assms
  by (simp add: on_close_def unregister_event_def mpl_disconnect_def forget_ids_def conj_commute
      split: option.splits)

lemma on_close_active:
  assumes "mouse_tracking_vertical_lines_cid w c = Some (m, k)"
    and "mouse_tracking_vertical_lines w c = Some d"
    and "live w d"
  shows "on_close c w =
     (Inr (),
      w\<lparr>callbacks := (callbacks w)(c := filter (\<lambda>e. fst e \<noteq> m \<and> fst e \<noteq> k) (callbacks w c)),
        mouse_tracking_vertical_lines_cid := (mouse_tracking_vertical_lines_cid w)(c := None),
        artists := filter (\<lambda>e. \<not> recorded d (fst e)) (artists w),
        mouse_tracking_vertical_lines := (mouse_tracking_vertical_lines w)(c := None)\<rparr>)"
proof -
  have "live (forget_ids c m k w) d"
    using assms(3) live_frame [of "forget_ids c m k w" w d] by (simp add: forget_ids_def)
  note r = remove_lines_live(1) [OF this]
  show ?thesis
    unfolding on_close_unfold [OF assms(1)] assms(2) option.case
    by (subst r) (simp add: forget_ids_def)
qed

lemma on_mouse_move_no_session:
  "mouse_tracking_vertical_lines w c = None \<Longrightarrow> on_mouse_move f kw c xdata w = (Inl KeyError, w)"
  by (simp add: on_mouse_move_def)

lemma on_mouse_move_absent:
  assumes "mouse_tracking_vertical_lines w c = Some d" and "live w d"
  shows "on_mouse_move f kw c None w = (Inr (), clear_session c d w)"
  unfolding on_mouse_move_def assms(1) option.case
  by (subst remove_lines_live(1) [OF assms(2)]) (simp add: clear_session_def)

lemma on_mouse_move_fault:
  assumes "mouse_tracking_vertical_lines w c = Some d" and "live w d"
    and "convert f x = Inl e"
  shows "on_mouse_move f kw c (Some x) w = (Inl e, clear_session c d w)"
  unfolding on_mouse_move_def assms(1) option.case
  using assms(3)
  by (subst remove_lines_live(1) [OF assms(2)]) (simp add: clear_session_def convert_def)


lemma cleared_entries:
  "live w d \<Longrightarrow>
   map_of (fst (snd (remove_lines d w))) ax = (if ax \<in> fst ` set d then Some None else None)"
  by (simp add: remove_lines_live(2))

lemma cleared_keys: "live w d \<Longrightarrow> fst ` set (fst (snd (remove_lines d w))) = fst ` set d"
  by (rule remove_lines_live(3))











subsection \<open>The registries\<close>

lemma remove_lines_frame:
  "\<exists>A. snd (snd (remove_lines d w)) = w\<lparr>artists := A\<rparr>"
  unfolding remove_lines_def by (rule remove_lines_loop_frame)

lemma on_close_registry:
  "callbacks (snd (on_close c w)) =
     (case mouse_tracking_vertical_lines_cid w c of
        None \<Rightarrow> callbacks w
      | Some (m, k) \<Rightarrow>
          (callbacks w)(c := filter (\<lambda>e. fst e \<noteq> m \<and> fst e \<noteq> k) (callbacks w c)))"
  "mouse_tracking_vertical_lines_cid (snd (on_close c w)) =
     (mouse_tracking_vertical_lines_cid w)(c := None)"
  "next_cid (snd (on_close c w)) = next_cid w"
proof -
  have "callbacks (snd (on_close c w)) =
     (case mouse_tracking_vertical_lines_cid w c of
        None \<Rightarrow> callbacks w
      | Some (m, k) \<Rightarrow>
          (callbacks w)(c := filter (\<lambda>e. fst e \<noteq> m \<and> fst e \<noteq> k) (callbacks w c))) \<and>
    mouse_tracking_vertical_lines_cid (snd (on_close c w)) =
     (mouse_tracking_vertical_lines_cid w)(c := None) \<and>
    next_cid (snd (on_close c w)) = next_cid w"
  proof (cases "mouse_tracking_vertical_lines_cid w c")
    case None
    then have "(mouse_tracking_vertical_lines_cid w)(c := None) =
        mouse_tracking_vertical_lines_cid w" by auto
    then show ?thesis using None by (simp add: on_close_inactive)
  next
    case (Some mk)
    obtain m k where mk: "mk = (m, k)" by (cases mk)
    note u = on_close_unfold [OF Some [unfolded mk]]
    show ?thesis
    proof (cases "mouse_tracking_vertical_lines w c")
      case None
      then show ?thesis using Some mk by (simp add: u forget_ids_def)
    next
      case d: (Some d)
      obtain A where A: "snd (snd (remove_lines d (forget_ids c m k w))) =
          (forget_ids c m k w)\<lparr>artists := A\<rparr>"
        using remove_lines_frame by blast
      obtain r d' w' where r: "remove_lines d (forget_ids c m k w) = (r, d', w')"
        by (cases "remove_lines d (forget_ids c m k w)")
      with A have w': "w' = (forget_ids c m k w)\<lparr>artists := A\<rparr>" by simp
      show ?thesis
        unfolding u d option.case r
        using Some mk by (cases r) (simp_all add: w' forget_ids_def)
    qed
  qed
  then show "callbacks (snd (on_close c w)) =
     (case mouse_tracking_vertical_lines_cid w c of
        None \<Rightarrow> callbacks w
      | Some (m, k) \<Rightarrow>
          (callbacks w)(c := filter (\<lambda>e. fst e \<noteq> m \<and> fst e \<noteq> k) (callbacks w c)))"
    and "mouse_tracking_vertical_lines_cid (snd (on_close c w)) =
     (mouse_tracking_vertical_lines_cid w)(c := None)"
    and "next_cid (snd (on_close c w)) = next_cid w"
    by blast+
qed

lemma tracking_inv_init: "tracking_inv init_world"
  by (simp add: tracking_inv_def session_wf_def init_world_def)

lemma session_wf_subscriptions:
  assumes "session_wf w c"
  shows "length (subscriptions w c MOUSE_MOVE) \<le> 1" and "length (subscriptions w c CLOSE) \<le> 1"
  using assms
  by (auto simp: session_wf_def subscriptions_def split: option.splits)

lemma on_close_wf:
  assumes "session_wf w c"
  shows "mouse_tracking_vertical_lines_cid (snd (on_close c w)) c = None"
    and "callbacks (snd (on_close c w)) c = []"
    and "\<And>c'. c' \<noteq> c \<Longrightarrow> session_wf (snd (on_close c w)) c' = session_wf w c'"
    and "session_wf (snd (on_close c w)) c"
proof -
  show 1: "mouse_tracking_vertical_lines_cid (snd (on_close c w)) c = None"
    by (simp add: on_close_registry)
  show 2: "callbacks (snd (on_close c w)) c = []"
    using assms by (auto simp: on_close_registry session_wf_def split: option.splits)
  show "session_wf (snd (on_close c w)) c' = session_wf w c'" if "c' \<noteq> c" for c'
    using that by (auto simp: session_wf_def on_close_registry split: option.splits)
  show "session_wf (snd (on_close c w)) c" by (simp add: session_wf_def 1 2)
qed

lemma tracking_inv_on_close: "tracking_inv w \<Longrightarrow> tracking_inv (snd (on_close c w))"
  unfolding tracking_inv_def
  by (metis on_close_wf(3) on_close_wf(4))

lemma enable_None:
  "add_mouse_tracking_vertical_line c None f kw w = on_close c w"
  by (cases "on_close c w") (auto simp: add_mouse_tracking_vertical_line_def split: sum.splits)

lemma enable_Some:
  assumes "fst (on_close c w) = Inr ()"
  defines "w1 \<equiv> snd (on_close c w)"
  shows "add_mouse_tracking_vertical_line c (Some t) f kw w =
     (Inr (),
      w1\<lparr>mouse_tracking_vertical_lines :=
            (mouse_tracking_vertical_lines w1)(c \<mapsto> new_session (axes_list t)),
         callbacks := (callbacks w1)
            (c := callbacks w1 c @
               [(next_cid w1 c, Event_value MOUSE_MOVE, On_mouse_move f kw),
                (Suc (next_cid w1 c), Event_value CLOSE, On_close)]),
         next_cid := (next_cid w1)(c := Suc (Suc (next_cid w1 c))),
         mouse_tracking_vertical_lines_cid :=
            (mouse_tracking_vertical_lines_cid w1)(c \<mapsto> (next_cid w1 c, Suc (next_cid w1 c)))\<rparr>)"
proof -
  obtain u where "on_close c w = (Inr u, w1)"
    using assms by (cases "on_close c w") (auto simp: w1_def)
  then show ?thesis
    by (simp add: add_mouse_tracking_vertical_line_def register_event_def mpl_connect_def
        Let_def new_session_def axes_list_def)
qed

lemma enable_fails:
  assumes "fst (on_close c w) = Inl e"
  shows "add_mouse_tracking_vertical_line c t f kw w = on_close c w"
  using assms
  by (cases "on_close c w") (auto simp: add_mouse_tracking_vertical_line_def)

lemma session_wf_frame:
  "mouse_tracking_vertical_lines_cid w' = mouse_tracking_vertical_lines_cid w \<Longrightarrow>
   callbacks w' = callbacks w \<Longrightarrow> session_wf w' c = session_wf w c"
  by (simp add: session_wf_def split: option.splits)

lemma enable_wf:
  assumes "tracking_inv w"
  shows "tracking_inv (snd (add_mouse_tracking_vertical_line c t f kw w))"
proof (cases "fst (on_close c w)")
  case (Inl e)
  then show ?thesis using tracking_inv_on_close [OF assms] by (simp add: enable_fails)
next
  case (Inr u)
  then have ok: "fst (on_close c w) = Inr ()" by simp
  have wf: "session_wf w c" using assms by (simp add: tracking_inv_def)
  note oc = on_close_wf [OF wf]
  have inv1: "tracking_inv (snd (on_close c w))" by (rule tracking_inv_on_close [OF assms])
  show ?thesis
  proof (cases t)
    case None
    then show ?thesis using inv1 by (simp add: enable_None)
  next
    case (Some ta)
    have "session_wf (snd (add_mouse_tracking_vertical_line c t f kw w)) c'" for c'
    proof (cases "c' = c")
      case True
      then show ?thesis by (simp add: Some enable_Some [OF ok] oc session_wf_def)
    next
      case False
      have "session_wf (snd (on_close c w)) c'" using inv1 by (simp add: tracking_inv_def)
      then show ?thesis
        using False by (auto simp: Some enable_Some [OF ok] oc session_wf_def split: option.splits)
    qed
    then show ?thesis by (simp add: tracking_inv_def)
  qed
qed

lemma on_mouse_move_registry:
  fixes kw :: kwargs and f :: "converter option" and xdata :: "real option"
    and c :: canvas and w :: world
  defines "w' \<equiv> snd (on_mouse_move f kw c xdata w)"
  shows "mouse_tracking_vertical_lines_cid w' = mouse_tracking_vertical_lines_cid w"
    and "callbacks w' = callbacks w"
    and "next_cid w' = next_cid w"
proof -
  have "mouse_tracking_vertical_lines_cid w' = mouse_tracking_vertical_lines_cid w \<and>
      callbacks w' = callbacks w \<and> next_cid w' = next_cid w"
  proof (cases "mouse_tracking_vertical_lines w c")
    case None
    then show ?thesis by (simp add: w'_def on_mouse_move_no_session)
  next
    case (Some d)
    obtain A where A: "snd (snd (remove_lines d w)) = w\<lparr>artists := A\<rparr>"
      using remove_lines_frame by blast
    obtain r d' w1 where r: "remove_lines d w = (r, d', w1)"
      by (cases "remove_lines d w")
    with A have w1: "w1 = w\<lparr>artists := A\<rparr>" by simp
    show ?thesis
    proof (cases r)
      case (Inl e)
      then show ?thesis by (simp add: w'_def on_mouse_move_def Some r w1)
    next
      case (Inr u)
      show ?thesis
      proof (cases xdata)
        case None
        then show ?thesis by (simp add: w'_def on_mouse_move_def Some r Inr w1)
      next
        case x: (Some x)
        show ?thesis
        proof (cases "convert f x")
          case (Inl e)
          then show ?thesis
            by (simp add: w'_def on_mouse_move_def Some r Inr w1 x convert_def)
        next
          case cv: (Inr x')
          define w2 where "w2 = w1\<lparr>mouse_tracking_vertical_lines :=
              (mouse_tracking_vertical_lines w1)(c \<mapsto> d')\<rparr>"
          define F where "F = fold (draw_body x' kw) (map fst d') (d', w2)"
          have fr: "snd F = w2\<lparr>artists := artists (snd F), next_line := next_line (snd F)\<rparr>"
            unfolding F_def by (rule fold_draw_body_frame)
          have w': "w' = draw_idle c ((snd F)\<lparr>mouse_tracking_vertical_lines :=
                (mouse_tracking_vertical_lines (snd F))(c \<mapsto> fst F)\<rparr>)"
            using cv
            by (simp add: w'_def on_mouse_move_def Some r Inr x convert_def split_beta Let_def
                F_def w2_def)
          have "mouse_tracking_vertical_lines_cid (snd F) = mouse_tracking_vertical_lines_cid w"
            "callbacks (snd F) = callbacks w" "next_cid (snd F) = next_cid w"
            by (subst fr, simp add: w2_def w1)+
          then show ?thesis by (simp add: w' draw_idle_def)
        qed
      qed
    qed
  qed
  then show "mouse_tracking_vertical_lines_cid w' = mouse_tracking_vertical_lines_cid w"
    and "callbacks w' = callbacks w"
    and "next_cid w' = next_cid w"
    by blast+
qed

lemma on_mouse_move_wf:
  assumes "tracking_inv w"
  shows "tracking_inv (snd (on_mouse_move f kw c xdata w))"
proof -
  have "session_wf (snd (on_mouse_move f kw c xdata w)) c' = session_wf w c'" for c'
    by (rule session_wf_frame [OF on_mouse_move_registry(1,2)])
  then show ?thesis using assms by (simp add: tracking_inv_def)
qed

lemma process_cases:
  assumes "session_wf w c"
  shows "process c ev x w = (Inr (), w) \<or>
         (\<exists>f kw. snd (process c ev x w) = snd (on_mouse_move f kw c x w)) \<or>
         snd (process c ev x w) = snd (on_close c w)"
proof (cases "mouse_tracking_vertical_lines_cid w c")
  case None
  with assms have "callbacks w c = []" by (simp add: session_wf_def)
  then show ?thesis by (simp add: process_def)
next
  case (Some mk)
  obtain m k where mk: "mk = (m, k)" by (cases mk)
  from assms Some mk obtain f kw where
    cb: "callbacks w c = [(m, Event_value MOUSE_MOVE, On_mouse_move f kw),
                          (k, Event_value CLOSE, On_close)]"
    by (auto simp: session_wf_def)
  show ?thesis
  proof (cases ev)
    case MOUSE_MOVE
    have "snd (process c ev x w) = snd (on_mouse_move f kw c x w)"
      by (simp add: process_def cb MOUSE_MOVE split: prod.splits sum.splits)
    then show ?thesis by blast
  next
    case CLOSE
    have "snd (process c ev x w) = snd (on_close c w)"
      by (simp add: process_def cb CLOSE split: prod.splits sum.splits)
    then show ?thesis by blast
  qed (simp_all add: process_def cb)
qed

lemma process_wf:
  assumes "tracking_inv w"
  shows "tracking_inv (snd (process c ev x w))"
proof -
  have "session_wf w c" using assms by (simp add: tracking_inv_def)
  from process_cases [OF this, of ev x] show ?thesis
    using assms on_mouse_move_wf [OF assms] tracking_inv_on_close [OF assms]
    by (elim disjE exE) simp_all
qed

lemma process_close:
  assumes "session_wf w c"
  shows "process c CLOSE xdata w = on_close c w"
proof (cases "mouse_tracking_vertical_lines_cid w c")
  case None
  with assms have "callbacks w c = []" by (simp add: session_wf_def)
  then show ?thesis by (simp add: process_def on_close_inactive [OF None])
next
  case (Some mk)
  obtain m k where mk: "mk = (m, k)" by (cases mk)
  from assms Some mk obtain f kw where
    cb: "callbacks w c = [(m, Event_value MOUSE_MOVE, On_mouse_move f kw),
                          (k, Event_value CLOSE, On_close)]"
    by (auto simp: session_wf_def)
  show ?thesis
    by (cases "on_close c w") (auto simp: process_def cb split: sum.splits)
qed

lemma process_move:
  assumes "session_wf w c" and "mouse_tracking_vertical_lines_cid w c = None"
  shows "process c MOUSE_MOVE xdata w = (Inr (), w)"
  using assms by (simp add: session_wf_def process_def)

lemma step_wf: "tracking_inv w \<Longrightarrow> tracking_inv (step a w)"
  by (cases a) (simp_all add: enable_wf process_wf)

lemma run_wf: "tracking_inv w \<Longrightarrow> tracking_inv (run acts w)"
  unfolding run_def by (induction acts arbitrary: w) (simp_all add: step_wf)

lemmas tracking_defs =
  add_mouse_tracking_vertical_line_def on_close_def on_mouse_move_def process_def
  register_event_def mpl_connect_def unregister_event_def mpl_disconnect_def
  remove_lines_def Line2D_remove_def draw_body_def axvline_def
  draw_idle_def Let_def

lemma tracked_world_eq:
  "tracked_world =
     \<lparr>mouse_tracking_vertical_lines_cid = [0 \<mapsto> (0, 1)],
      mouse_tracking_vertical_lines = [0 \<mapsto> [(7, Some 0), (8, Some 1)]],
      callbacks = (\<lambda>c. [])(0 := [(0, ''motion_notify_event'', On_mouse_move None []),
                                 (1, ''close_event'', On_close)]),
      next_cid = (\<lambda>c. 0)(0 := 2),
      artists = [(0, \<lparr>line_axes = 7, line_x = 5, line_props = []\<rparr>),
                 (1, \<lparr>line_axes = 8, line_x = 5, line_props = []\<rparr>)],
      next_line = 2,
      draw_idle_requests = [0]\<rparr>"
  by (simp add: tracked_world_def run_def init_world_def tracking_defs numeral_2_eq_2)

lemma on_close_sound:
  assumes "session_sound w c"
  shows "fst (on_close c w) = Inr ()"
    and "mouse_tracking_vertical_lines (snd (on_close c w)) c = None"
proof -
  have "fst (on_close c w) = Inr () \<and> mouse_tracking_vertical_lines (snd (on_close c w)) c = None"
  proof (cases "mouse_tracking_vertical_lines_cid w c")
    case None
    then show ?thesis using assms by (simp add: on_close_inactive session_sound_def)
  next
    case (Some mk)
    obtain m k where mk: "mk = (m, k)" by (cases mk)
    from assms Some obtain d where d: "mouse_tracking_vertical_lines w c = Some d" "live w d"
      by (auto simp: session_sound_def split: option.splits)
    show ?thesis by (simp add: on_close_active [OF Some [unfolded mk] d])
  qed
  then show "fst (on_close c w) = Inr ()"
    and "mouse_tracking_vertical_lines (snd (on_close c w)) c = None"
    by blast+
qed


lemma session_sound_tracked_world: "session_sound tracked_world 0"
  by (simp add: session_sound_def tracked_world_eq live_def)

lemma live_tracked_world: "live tracked_world [(7, Some 0), (8, Some 1)]"
  by (simp add: tracked_world_eq live_def)

lemma stale_world_eq:
  "stale_world =
     \<lparr>mouse_tracking_vertical_lines_cid = [0 \<mapsto> (0, 1)],
      mouse_tracking_vertical_lines = [0 \<mapsto> [(7, Some 0), (8, Some 1)]],
      callbacks = (\<lambda>c. [])(0 := [(0, ''motion_notify_event'', On_mouse_move None []),
                                 (1, ''close_event'', On_close)]),
      next_cid = (\<lambda>c. 0)(0 := 2),
      artists = [],
      next_line = 2,
      draw_idle_requests = [0]\<rparr>"
  by (simp add: stale_world_def tracked_world_eq)

section \<open>The claims\<close>

text \<open>
  C2: with an empty collection of labels on both sides, \<open>axes\<close> returns normally, but
  what it returns is the empty list: neither branch of the left side appends the host
  Axes, although the function's documentation says that index 0 of the result is the host.
\<close>

theorem axes_no_labels_returns_no_axes:
  "fst (axes ar host_ax x_label (Some (Labels [])) (Some (Labels [])) offset fig) = []"
  by (simp add: axes_def Let_def split: option.splits)




text \<open>
  C9, as stated, fails: for a location string that matplotlib does not know, \<open>legend\<close>
  raises ValueError on a list of two Axes and attaches no legend: the figure is as it was.
\<close>

theorem legend_invalid_location:
  "fst (legend no_extra [0, 1] (Loc_str ''nowhere'') [] (Some True) (Some (1 / 2)) [] legend_fig) =
     Inl ValueError \<and>
   snd (legend no_extra [0, 1] (Loc_str ''nowhere'') [] (Some True) (Some (1 / 2)) [] legend_fig) =
     legend_fig"
  by (simp add: legend_def Axes_legend_def collect_eq no_extra_def valid_loc_def)

text \<open>
  C9, amended: for a non-empty list of Axes, a location that matplotlib knows and further
  arguments that matplotlib accepts, \<open>legend\<close> returns normally; the legend it attaches
  to the first Axes of the list holds the handles and the labels of every Axes of the list,
  in list order and in each Axes's own order; the number of its labels is the sum of the
  numbers of labels of the Axes; and every Axes other than the first is left as it was,
  so none of them is given a legend.
\<close>

theorem legend_combined:
  assumes "check args kw = None" and "valid_loc (loc_value loc')"
  shows "fst (legend check (a # as) loc' args fb fa kw fig) = Inr () \<and>
   attached_legend (axes_heap (snd (legend check (a # as) loc' args fb fa kw fig)) a) =
     Some \<lparr>handles = concat (map (\<lambda>b. fst (legend_handles_labels (axes_heap fig b))) (a # as)),
           labels = concat (map (\<lambda>b. snd (legend_handles_labels (axes_heap fig b))) (a # as)),
           loc = loc_value loc', fancybox = fb, framealpha = fa, legend_kwargs = kw\<rparr> \<and>
   length (concat (map (\<lambda>b. snd (legend_handles_labels (axes_heap fig b))) (a # as))) =
     sum_list (map (\<lambda>b. length (snd (legend_handles_labels (axes_heap fig b)))) (a # as)) \<and>
   (\<forall>b. b \<noteq> a \<longrightarrow>
      axes_heap (snd (legend check (a # as) loc' args fb fa kw fig)) b = axes_heap fig b)"
  using assms
  by (simp add: legend_def Axes_legend_def collect_eq length_concat comp_def)

theorem legend_combined_witness:
  "no_extra [] [] = None \<and> valid_loc (loc_value (Loc BEST)) \<and> (1::nat) \<noteq> 0 \<and>
   fst (legend no_extra [0, 1] (Loc BEST) [] (Some True) (Some (1 / 2)) [] legend_fig) = Inr () \<and>
   attached_legend
     (axes_heap (snd (legend no_extra [0, 1] (Loc BEST) [] (Some True) (Some (1 / 2)) []
                        legend_fig)) 0) =
     Some \<lparr>handles = [1, 2, 3], labels = [''a'', ''b'', ''c''], loc = ''best'',
           fancybox = Some True, framealpha = Some (1 / 2), legend_kwargs = []\<rparr> \<and>
   attached_legend
     (axes_heap (snd (legend no_extra [0, 1] (Loc BEST) [] (Some True) (Some (1 / 2)) []
                        legend_fig)) 1) = None"
proof -
  have c: "no_extra [] [] = None" by (simp add: no_extra_def)
  have v: "valid_loc (loc_value (Loc BEST))" by (simp add: valid_loc_def)
  from legend_combined [where check = no_extra and args = "[]" and kw = "[]"
      and loc' = "Loc BEST" and a = 0 and as = "[1]" and fb = "Some True"
      and fa = "Some (1 / 2)" and fig = legend_fig, OF c v] c v
  show ?thesis by (simp add: legend_fig_def twin_axes_def)
qed

text \<open>
  C10: on an empty list of Axes \<open>legend\<close> raises IndexError (from \<open>axes_[0]\<close>, after a
  loop that collected nothing) and leaves the figure as it was: no legend is attached.
\<close>

theorem legend_empty_raises:
  "legend check [] loc' args fb fa kw fig = (Inl IndexError, fig)"
  by (simp add: legend_def collect_def)

text \<open>
  C1, as stated, fails: on a canvas without a session a call with the empty collection of
  Axes records the two callback ids, records a session whose dictionary of lines is empty,
  and leaves one subscription to pointer moves and one to the close event. Only
  \<open>to_axes = None\<close> makes the function return before it subscribes.
\<close>

theorem enable_empty_axes_subscribes:
  "mouse_tracking_vertical_lines_cid
     (snd (add_mouse_tracking_vertical_line 0 (Some (Many [])) None [] init_world)) 0 = Some (0, 1) \<and>
   mouse_tracking_vertical_lines
     (snd (add_mouse_tracking_vertical_line 0 (Some (Many [])) None [] init_world)) 0 = Some [] \<and>
   length (subscriptions
     (snd (add_mouse_tracking_vertical_line 0 (Some (Many [])) None [] init_world)) 0 MOUSE_MOVE) = 1 \<and>
   length (subscriptions
     (snd (add_mouse_tracking_vertical_line 0 (Some (Many [])) None [] init_world)) 0 CLOSE) = 1"
  by (simp add: init_world_def subscriptions_def tracking_defs)

text \<open>
  C1, amended: in a state where the registries hold what the dictionary of callback ids
  says, and where the session of the canvas, if there is one, records only lines that are
  still on their Axes, a call with \<open>to_axes = None\<close> is exactly the teardown
  \<open>on_close\<close>: it returns normally and leaves the canvas with no recorded callback
  ids, no dictionary of lines, no subscription to pointer moves and none to the close
  event. A call with the empty collection returns normally with the callback ids recorded,
  an empty dictionary of lines and one subscription of each kind.
\<close>

theorem enable_without_axes:
  fixes f :: "converter option" and kw :: kwargs and c :: canvas
  assumes "tracking_inv w" and "session_sound w c"
  defines "w' \<equiv> snd (add_mouse_tracking_vertical_line c None f kw w)"
    and "w'' \<equiv> snd (add_mouse_tracking_vertical_line c (Some (Many [])) f kw w)"
  shows "add_mouse_tracking_vertical_line c None f kw w = on_close c w \<and>
     fst (add_mouse_tracking_vertical_line c None f kw w) = Inr () \<and>
     mouse_tracking_vertical_lines_cid w' c = None \<and>
     mouse_tracking_vertical_lines w' c = None \<and>
     subscriptions w' c MOUSE_MOVE = [] \<and> subscriptions w' c CLOSE = [] \<and>
     fst (add_mouse_tracking_vertical_line c (Some (Many [])) f kw w) = Inr () \<and>
     mouse_tracking_vertical_lines_cid w'' c \<noteq> None \<and>
     mouse_tracking_vertical_lines w'' c = Some [] \<and>
     length (subscriptions w'' c MOUSE_MOVE) = 1 \<and> length (subscriptions w'' c CLOSE) = 1"
proof -
  have wf: "session_wf w c" using assms(1) by (simp add: tracking_inv_def)
  note oc = on_close_wf [OF wf]
  note os = on_close_sound [OF assms(2)]
  have 1: "add_mouse_tracking_vertical_line c None f kw w = on_close c w" by (rule enable_None)
  have 2: "fst (add_mouse_tracking_vertical_line c None f kw w) = Inr ()"
    "mouse_tracking_vertical_lines_cid w' c = None" "mouse_tracking_vertical_lines w' c = None"
    "subscriptions w' c MOUSE_MOVE = []" "subscriptions w' c CLOSE = []"
    by (simp_all add: w'_def 1 oc os subscriptions_def)
  note e = enable_Some [OF os(1), of "Many []" f kw]
  have 3: "fst (add_mouse_tracking_vertical_line c (Some (Many [])) f kw w) = Inr ()"
    "mouse_tracking_vertical_lines_cid w'' c \<noteq> None"
    "mouse_tracking_vertical_lines w'' c = Some []"
    "length (subscriptions w'' c MOUSE_MOVE) = 1" "length (subscriptions w'' c CLOSE) = 1"
    by (simp_all add: w''_def e oc subscriptions_def new_session_def axes_list_def)
  from 1 2 3 show ?thesis by blast
qed

theorem enable_without_axes_witness:
  "tracking_inv tracked_world \<and> session_sound tracked_world 0 \<and>
   mouse_tracking_vertical_lines_cid tracked_world 0 = Some (0, 1) \<and>
   fst (add_mouse_tracking_vertical_line 0 None None [] tracked_world) = Inr () \<and>
   mouse_tracking_vertical_lines_cid
     (snd (add_mouse_tracking_vertical_line 0 None None [] tracked_world)) 0 = None \<and>
   mouse_tracking_vertical_lines
     (snd (add_mouse_tracking_vertical_line 0 None None [] tracked_world)) 0 = None \<and>
   callbacks (snd (add_mouse_tracking_vertical_line 0 None None [] tracked_world)) 0 = [] \<and>
   mouse_tracking_vertical_lines
     (snd (add_mouse_tracking_vertical_line 0 (Some (Many [])) None [] tracked_world)) 0 = Some []"
proof -
  have i: "tracking_inv tracked_world"
    unfolding tracked_world_def by (rule run_wf [OF tracking_inv_init])
  note s = session_sound_tracked_world
  have h: "mouse_tracking_vertical_lines_cid tracked_world 0 = Some (0, 1)"
    by (simp add: tracked_world_eq)
  have e: "callbacks (snd (add_mouse_tracking_vertical_line 0 None None [] tracked_world)) 0 = []"
    by (simp add: tracked_world_eq tracking_defs)
  from enable_without_axes [OF i s, of None "[]"] i s h e show ?thesis by blast
qed

text \<open>
  C4: from a state where the registries hold what the dictionary of callback ids says
  (the initial state is one), after any sequence of calls of
  \<open>add_mouse_tracking_vertical_line\<close>, pointer moves and close events, on any canvases,
  whether they raise or not, the registries still hold what the dictionary says, every
  canvas has at most one subscription to pointer moves and at most one to the close
  event, and the teardown with which the next call begins leaves the canvas without any
  subscription before new ones are registered.
\<close>

theorem subscriptions_at_most_one:
  assumes "tracking_inv w"
  shows "tracking_inv (run acts w) \<and>
     (\<forall>c. length (subscriptions (run acts w) c MOUSE_MOVE) \<le> 1 \<and>
          length (subscriptions (run acts w) c CLOSE) \<le> 1 \<and>
          callbacks (snd (on_close c (run acts w))) c = [])"
proof -
  have inv: "tracking_inv (run acts w)" by (rule run_wf [OF assms])
  then have wf: "session_wf (run acts w) c" for c by (simp add: tracking_inv_def)
  show ?thesis using inv session_wf_subscriptions [OF wf] on_close_wf(2) [OF wf] by simp
qed

theorem subscriptions_at_most_one_witness:
  "tracking_inv init_world \<and>
   length (subscriptions (run twice init_world) 0 MOUSE_MOVE) \<le> 1 \<and>
   length (subscriptions (run twice init_world) 0 CLOSE) \<le> 1 \<and>
   map fst (callbacks (run twice init_world) 0) = [2, 3]"
proof -
  have e: "map fst (callbacks (run twice init_world) 0) = [2, 3]"
    by (simp add: twice_def run_def init_world_def tracking_defs)
  from subscriptions_at_most_one [OF tracking_inv_init, of twice] e tracking_inv_init
  show ?thesis by blast
qed

text \<open>
  C5, as stated, fails: when the lines of the session are no longer on their Axes (the
  figure was cleared), \<open>on_close\<close> raises from \<open>remove()\<close> after it has unregistered
  the callbacks and forgotten their ids, and the dictionary of lines of the canvas is
  still there, with the lines it recorded.
\<close>

theorem close_fails_on_removed_lines:
  "mouse_tracking_vertical_lines_cid stale_world 0 = Some (0, 1) \<and>
   mouse_tracking_vertical_lines stale_world 0 = Some [(7, Some 0), (8, Some 1)] \<and>
   fst (on_close 0 stale_world) = Inl RemoveError \<and>
   mouse_tracking_vertical_lines_cid (snd (on_close 0 stale_world)) 0 = None \<and>
   callbacks (snd (on_close 0 stale_world)) 0 = [] \<and>
   mouse_tracking_vertical_lines (snd (on_close 0 stale_world)) 0 =
     Some [(7, Some 0), (8, Some 1)]"
  by (simp add: stale_world_eq tracking_defs)

text \<open>
  C5, amended: on a canvas with a session (callback ids \<open>(m, k)\<close> and a dictionary of
  lines recorded) whose recorded lines are all on their Axes still, \<open>on_close\<close> returns
  normally; afterwards no callback ids and no dictionary of lines are recorded for the
  canvas, no callback of the canvas has the id \<open>m\<close> or \<open>k\<close>, and no line recorded in
  the dictionary is drawn any more. A second \<open>on_close\<close> returns normally and changes
  nothing, as does \<open>on_close\<close> on any canvas without recorded callback ids; and a close
  event delivered by the canvas is exactly \<open>on_close\<close>.
\<close>

theorem close_purges_session:
  assumes "mouse_tracking_vertical_lines_cid w c = Some (m, k)"
    and "mouse_tracking_vertical_lines w c = Some d"
    and "live w d"
  defines "w' \<equiv> snd (on_close c w)"
  shows "fst (on_close c w) = Inr () \<and>
     mouse_tracking_vertical_lines_cid w' c = None \<and>
     mouse_tracking_vertical_lines w' c = None \<and>
     (\<forall>e \<in> set (callbacks w' c). fst e \<noteq> m \<and> fst e \<noteq> k) \<and>
     (\<forall>ax l. map_of d ax = Some (Some l) \<longrightarrow> l \<notin> fst ` set (artists w')) \<and>
     on_close c w' = (Inr (), w') \<and>
     (\<forall>v. mouse_tracking_vertical_lines_cid v c = None \<longrightarrow> on_close c v = (Inr (), v)) \<and>
     (\<forall>v. session_wf v c \<longrightarrow> process c CLOSE None v = on_close c v)"
proof -
  note r = on_close_active [OF assms(1,2,3)]
  have 1: "fst (on_close c w) = Inr ()" by (simp add: r)
  have 2: "mouse_tracking_vertical_lines_cid w' c = None"
    "mouse_tracking_vertical_lines w' c = None"
    by (simp_all add: w'_def r)
  have 3: "\<forall>e \<in> set (callbacks w' c). fst e \<noteq> m \<and> fst e \<noteq> k"
    by (simp add: w'_def r)
  have 4: "\<forall>ax l. map_of d ax = Some (Some l) \<longrightarrow> l \<notin> fst ` set (artists w')"
    by (auto simp: w'_def r recorded_iff)
  have 5: "on_close c w' = (Inr (), w')" by (rule on_close_inactive [OF 2(1)])
  have 6: "\<forall>v. mouse_tracking_vertical_lines_cid v c = None \<longrightarrow> on_close c v = (Inr (), v)"
    by (simp add: on_close_inactive)
  have 7: "\<forall>v. session_wf v c \<longrightarrow> process c CLOSE None v = on_close c v"
    by (simp add: process_close)
  from 1 2 3 4 5 6 7 show ?thesis by blast
qed

theorem close_purges_session_witness:
  "mouse_tracking_vertical_lines_cid tracked_world 0 = Some (0, 1) \<and>
   mouse_tracking_vertical_lines tracked_world 0 = Some [(7, Some 0), (8, Some 1)] \<and>
   live tracked_world [(7, Some 0), (8, Some 1)] \<and>
   mouse_tracking_vertical_lines_cid init_world 0 = None \<and>
   on_close 0 init_world = (Inr (), init_world) \<and>
   fst (on_close 0 tracked_world) = Inr () \<and>
   mouse_tracking_vertical_lines_cid (snd (on_close 0 tracked_world)) 0 = None \<and>
   mouse_tracking_vertical_lines (snd (on_close 0 tracked_world)) 0 = None \<and>
   callbacks (snd (on_close 0 tracked_world)) 0 = [] \<and>
   artists (snd (on_close 0 tracked_world)) = [] \<and>
   on_close 0 (snd (on_close 0 tracked_world)) = (Inr (), snd (on_close 0 tracked_world))"
proof -
  have h: "mouse_tracking_vertical_lines_cid tracked_world 0 = Some (0, 1)"
    "mouse_tracking_vertical_lines tracked_world 0 = Some [(7, Some 0), (8, Some 1)]"
    by (simp_all add: tracked_world_eq)
  note l = live_tracked_world
  have i: "mouse_tracking_vertical_lines_cid init_world 0 = None"
    by (simp add: init_world_def)
  have e: "callbacks (snd (on_close 0 tracked_world)) 0 = []"
    "artists (snd (on_close 0 tracked_world)) = []"
    by (simp_all add: tracked_world_eq tracking_defs)
  from close_purges_session [OF h l] h l i e show ?thesis by blast
qed

text \<open>
  C6, as stated, fails: when the lines of the session are no longer on their Axes (the
  figure was cleared), \<open>on_mouse_move\<close> for an event without coordinate raises from
  \<open>remove()\<close>, and the entries of the dictionary still record the lines.
\<close>

theorem move_fails_on_removed_lines:
  "mouse_tracking_vertical_lines stale_world 0 = Some [(7, Some 0), (8, Some 1)] \<and>
   fst (on_mouse_move None [] 0 None stale_world) = Inl RemoveError \<and>
   mouse_tracking_vertical_lines (snd (on_mouse_move None [] 0 None stale_world)) 0 =
     Some [(7, Some 0), (8, Some 1)]"
  by (simp add: stale_world_eq tracking_defs)

text \<open>
  C6, amended: on a canvas with a dictionary of lines whose recorded lines are all on
  their Axes still, \<open>on_mouse_move\<close> for an event without coordinate returns normally;
  the dictionary keeps its keys and every entry is \<open>None\<close>; no line it recorded is
  drawn any more and no line has been added; the recorded callback ids and all registries
  are as before.
\<close>

theorem move_without_coordinate:
  fixes f :: "converter option" and kw :: kwargs
  assumes "mouse_tracking_vertical_lines w c = Some d" and "live w d"
  defines "w' \<equiv> snd (on_mouse_move f kw c None w)"
  shows "fst (on_mouse_move f kw c None w) = Inr () \<and>
     (\<exists>d'. mouse_tracking_vertical_lines w' c = Some d' \<and> fst ` set d' = fst ` set d \<and>
           (\<forall>ax \<in> fst ` set d. map_of d' ax = Some None)) \<and>
     (\<forall>ax l. map_of d ax = Some (Some l) \<longrightarrow> l \<notin> fst ` set (artists w')) \<and>
     set (artists w') \<subseteq> set (artists w) \<and>
     mouse_tracking_vertical_lines_cid w' = mouse_tracking_vertical_lines_cid w \<and>
     callbacks w' = callbacks w"
proof -
  note lv = assms(2)
  have w': "w' = clear_session c d w"
    by (simp add: w'_def on_mouse_move_absent [OF assms(1,2)])
  have 1: "fst (on_mouse_move f kw c None w) = Inr ()"
    by (simp add: on_mouse_move_absent [OF assms(1,2)])
  have 2: "\<exists>d'. mouse_tracking_vertical_lines w' c = Some d' \<and> fst ` set d' = fst ` set d \<and>
           (\<forall>ax \<in> fst ` set d. map_of d' ax = Some None)"
    by (simp add: w' clear_session_def cleared_keys [OF lv] cleared_entries [OF lv])
  have 3: "\<forall>ax l. map_of d ax = Some (Some l) \<longrightarrow> l \<notin> fst ` set (artists w')"
    by (auto simp: w' clear_session_def recorded_iff)
  have 4: "set (artists w') \<subseteq> set (artists w)"
    by (auto simp: w' clear_session_def)
  have 5: "mouse_tracking_vertical_lines_cid w' = mouse_tracking_vertical_lines_cid w"
    "callbacks w' = callbacks w"
    by (simp_all add: w' clear_session_def)
  from 1 2 3 4 5 show ?thesis by blast
qed

theorem move_without_coordinate_witness:
  "mouse_tracking_vertical_lines tracked_world 0 = Some [(7, Some 0), (8, Some 1)] \<and>
   live tracked_world [(7, Some 0), (8, Some 1)] \<and>
   fst (on_mouse_move None [] 0 None tracked_world) = Inr () \<and>
   artists (snd (on_mouse_move None [] 0 None tracked_world)) = [] \<and>
   mouse_tracking_vertical_lines (snd (on_mouse_move None [] 0 None tracked_world)) 0 =
     Some [(7, None), (8, None)] \<and>
   mouse_tracking_vertical_lines_cid (snd (on_mouse_move None [] 0 None tracked_world)) 0 =
     Some (0, 1) \<and>
   callbacks (snd (on_mouse_move None [] 0 None tracked_world)) = callbacks tracked_world"
proof -
  have h: "mouse_tracking_vertical_lines tracked_world 0 = Some [(7, Some 0), (8, Some 1)]"
    by (simp add: tracked_world_eq)
  note l = live_tracked_world
  have e: "artists (snd (on_mouse_move None [] 0 None tracked_world)) = []"
    "mouse_tracking_vertical_lines (snd (on_mouse_move None [] 0 None tracked_world)) 0 =
     Some [(7, None), (8, None)]"
    "mouse_tracking_vertical_lines_cid (snd (on_mouse_move None [] 0 None tracked_world)) 0 =
     Some (0, 1)"
    by (simp_all add: tracked_world_eq tracking_defs)
  from move_without_coordinate [OF h l, of None "[]"] h l e show ?thesis by blast
qed




text \<open>
  C8, as stated, fails: when the lines of the session are no longer on their Axes (the
  figure was cleared), \<open>on_mouse_move\<close> raises from \<open>remove()\<close> before the converter
  is called: the exception that leaves is not the converter's, and the entries of the
  dictionary still record the lines.
\<close>

theorem removal_fault_hides_converter_fault:
  "mouse_tracking_vertical_lines stale_world 0 = Some [(7, Some 0), (8, Some 1)] \<and>
   failing 6 = Inl (ConverterFault ''no such sample'') \<and>
   fst (on_mouse_move (Some failing) [] 0 (Some 6) stale_world) = Inl RemoveError \<and>
   mouse_tracking_vertical_lines (snd (on_mouse_move (Some failing) [] 0 (Some 6) stale_world)) 0 =
     Some [(7, Some 0), (8, Some 1)]"
  by (simp add: stale_world_eq tracking_defs failing_def)

text \<open>
  C8, amended: on a canvas with a dictionary of lines whose recorded lines are all on
  their Axes still, when the converter raises on the pointer coordinate,
  \<open>on_mouse_move\<close> raises the same exception, after \<open>remove_lines\<close> and before
  anything is drawn: the state it leaves is the state a move without coordinate leaves.
  Every entry of the dictionary is \<open>None\<close>, no recorded line is drawn any more, no line
  has been added, and the recorded callback ids and all registries are as before.
\<close>

theorem converter_fault:
  fixes g :: converter and kw :: kwargs
  assumes "mouse_tracking_vertical_lines w c = Some d" and "live w d" and "g x = Inl e"
  defines "w' \<equiv> snd (on_mouse_move (Some g) kw c (Some x) w)"
  shows "fst (on_mouse_move (Some g) kw c (Some x) w) = Inl e \<and>
     w' = snd (on_mouse_move (Some g) kw c None w) \<and>
     (\<exists>d'. mouse_tracking_vertical_lines w' c = Some d' \<and> fst ` set d' = fst ` set d \<and>
           (\<forall>ax \<in> fst ` set d. map_of d' ax = Some None)) \<and>
     (\<forall>ax l. map_of d ax = Some (Some l) \<longrightarrow> l \<notin> fst ` set (artists w')) \<and>
     set (artists w') \<subseteq> set (artists w) \<and>
     mouse_tracking_vertical_lines_cid w' = mouse_tracking_vertical_lines_cid w \<and>
     callbacks w' = callbacks w"
proof -
  note lv = assms(2)
  have cv: "convert (Some g) x = Inl e" using assms(3) by (simp add: convert_def)
  have r: "on_mouse_move (Some g) kw c (Some x) w = (Inl e, clear_session c d w)"
    by (rule on_mouse_move_fault [OF assms(1,2) cv])
  have w': "w' = clear_session c d w" by (simp add: w'_def r)
  have 1: "fst (on_mouse_move (Some g) kw c (Some x) w) = Inl e" by (simp add: r)
  have 0: "w' = snd (on_mouse_move (Some g) kw c None w)"
    by (simp add: w' on_mouse_move_absent [OF assms(1,2)])
  have 2: "\<exists>d'. mouse_tracking_vertical_lines w' c = Some d' \<and> fst ` set d' = fst ` set d \<and>
           (\<forall>ax \<in> fst ` set d. map_of d' ax = Some None)"
    by (simp add: w' clear_session_def cleared_keys [OF lv] cleared_entries [OF lv])
  have 3: "\<forall>ax l. map_of d ax = Some (Some l) \<longrightarrow> l \<notin> fst ` set (artists w')"
    by (auto simp: w' clear_session_def recorded_iff)
  have 4: "set (artists w') \<subseteq> set (artists w)"
    by (auto simp: w' clear_session_def)
  have 5: "mouse_tracking_vertical_lines_cid w' = mouse_tracking_vertical_lines_cid w"
    "callbacks w' = callbacks w"
    by (simp_all add: w' clear_session_def)
  from 0 1 2 3 4 5 show ?thesis by blast
qed

theorem converter_fault_witness:
  "mouse_tracking_vertical_lines tracked_world 0 = Some [(7, Some 0), (8, Some 1)] \<and>
   live tracked_world [(7, Some 0), (8, Some 1)] \<and>
   failing 6 = Inl (ConverterFault ''no such sample'') \<and>
   fst (on_mouse_move (Some failing) [] 0 (Some 6) tracked_world) =
     Inl (ConverterFault ''no such sample'') \<and>
   artists (snd (on_mouse_move (Some failing) [] 0 (Some 6) tracked_world)) = [] \<and>
   mouse_tracking_vertical_lines (snd (on_mouse_move (Some failing) [] 0 (Some 6) tracked_world)) 0 =
     Some [(7, None), (8, None)] \<and>
   mouse_tracking_vertical_lines_cid
     (snd (on_mouse_move (Some failing) [] 0 (Some 6) tracked_world)) 0 = Some (0, 1) \<and>
   callbacks (snd (on_mouse_move (Some failing) [] 0 (Some 6) tracked_world)) =
     callbacks tracked_world"
proof -
  have h: "mouse_tracking_vertical_lines tracked_world 0 = Some [(7, Some 0), (8, Some 1)]"
    by (simp add: tracked_world_eq)
  note l = live_tracked_world
  have g: "failing 6 = Inl (ConverterFault ''no such sample'')" by (simp add: failing_def)
  have e: "artists (snd (on_mouse_move (Some failing) [] 0 (Some 6) tracked_world)) = []"
    "mouse_tracking_vertical_lines (snd (on_mouse_move (Some failing) [] 0 (Some 6) tracked_world)) 0 =
     Some [(7, None), (8, None)]"
    "mouse_tracking_vertical_lines_cid
     (snd (on_mouse_move (Some failing) [] 0 (Some 6) tracked_world)) 0 = Some (0, 1)"
    by (simp_all add: tracked_world_eq tracking_defs failing_def)
  from converter_fault [where g = failing and x = 6 and kw = "[]", OF h l g] h l g e
  show ?thesis by blast
qed

end
